theory Spec2Isabelle
  imports Main "HOL-Library.Sublist"
begin

section \<open>Strings as the scripts use them\<close>

text \<open>
  File names and patterns are sequences of characters. The methods the scripts call on
  them are \<^verbatim>\<open>startsWith\<close>, \<^verbatim>\<open>endsWith\<close>, \<^verbatim>\<open>indexOf\<close>,
  \<^verbatim>\<open>lastIndexOf\<close>, \<^verbatim>\<open>substring\<close> and \<^verbatim>\<open>toLowerCase\<close>.
  A character is one of the code units \<open>0\<close> to \<open>255\<close>, read as ISO 8859-1 (so the
  pilcrow that separates the levels of an archive path is \<open>char_of 182\<close>, and a name
  with a character beyond \<open>255\<close> is outside the model). \<open>toLowerCase\<close> lowers every
  letter of that range as Unicode does: \<open>A\<close> to \<open>Z\<close>, and the accented capitals
  \<open>192\<close> to \<open>222\<close> (the multiplication sign \<open>215\<close> is no letter), each to the
  character \<open>32\<close> places further.
\<close>

definition startsWith :: "string \<Rightarrow> string \<Rightarrow> bool" where
  "startsWith s p = prefix p s"

definition endsWith :: "string \<Rightarrow> string \<Rightarrow> bool" where
  "endsWith s p = suffix p s"

text \<open>\<^verbatim>\<open>s.indexOf(p) !== -1\<close>: \<open>p\<close> occurs in \<open>s\<close> as a contiguous run.\<close>

definition containsStr :: "string \<Rightarrow> string \<Rightarrow> bool" where
  "containsStr s p = sublist p s"

definition lowerChar :: "char \<Rightarrow> char" where
  "lowerChar ch =
     (let n = (of_char ch :: nat)
      in if (65 \<le> n \<and> n \<le> 90) \<or> (192 \<le> n \<and> n \<le> 222 \<and> n \<noteq> 215)
         then char_of (n + 32) else ch)"

definition toLowerCase :: "string \<Rightarrow> string" where
  "toLowerCase s = map lowerChar s"

text \<open>\<^verbatim>\<open>s.lastIndexOf(ch)\<close>: the last position of \<open>ch\<close>, or \<open>-1\<close>.\<close>

fun lastIndexOf :: "string \<Rightarrow> char \<Rightarrow> int" where
  "lastIndexOf [] ch = - 1"
| "lastIndexOf (x # xs) ch =
     (if 0 \<le> lastIndexOf xs ch then lastIndexOf xs ch + 1
      else if x = ch then 0 else - 1)"

text \<open>
  \<^verbatim>\<open>s.substring(a, b)\<close> and \<^verbatim>\<open>s.substring(a)\<close> with the clamping of the
  script language: an index below \<open>0\<close> counts as \<open>0\<close>, one beyond the length as the
  length, and the two-argument form swaps its arguments when the first is larger.
\<close>

definition clampIndex :: "string \<Rightarrow> int \<Rightarrow> nat" where
  "clampIndex s i = (if i < 0 then 0 else min (nat i) (length s))"

definition substring2 :: "string \<Rightarrow> int \<Rightarrow> int \<Rightarrow> string" where
  "substring2 s a b =
     (let lo = min (clampIndex s a) (clampIndex s b);
          hi = max (clampIndex s a) (clampIndex s b)
      in take (hi - lo) (drop lo s))"

definition substring1 :: "string \<Rightarrow> int \<Rightarrow> string" where
  "substring1 s a = drop (clampIndex s a) s"

text \<open>The decimal digits of a number, as string concatenation prints it.\<close>

function showNat :: "nat \<Rightarrow> string" where
  "showNat n =
     (if n < 10 then [char_of (48 + n)]
      else showNat (n div 10) @ [char_of (48 + n mod 10)])"
  by pat_completeness auto
termination
  by (relation "measure (\<lambda>n. n)") auto

declare showNat.simps [simp del]

section \<open>Configuration\<close>

text \<open>
  The \<^verbatim>\<open>CONFIG\<close> object of PDFImportService_Enhanced.js (lines 15 to 56). The size
  limit is in bytes; \<open>RETRY_ATTEMPTS\<close> is the bound of the retry loop.
\<close>

record config =
  SOURCE_DIR :: string
  ARCHIVE_PATH :: string
  METADATA_MASK :: string
  WORKFLOW_TEMPLATE :: string
  PROCESSED_DIR :: string
  ERROR_DIR :: string
  MAX_FILE_SIZE :: nat
  ALLOWED_EXTENSIONS :: "string list"
  EXCLUDE_PATTERNS :: "string list"
  RETRY_ATTEMPTS :: nat

text \<open>The fallback configuration of lines 41 to 55; the pilcrow is the character 0xB6, and
  the separators of the directory paths are written as slashes.\<close>

definition defaultConfig :: config where
  "defaultConfig =
     \<lparr> SOURCE_DIR = ''C:/temp/pdf_import'',
       ARCHIVE_PATH = CHR 0xB6 # ''Eingangsrechnungen'',
       METADATA_MASK = ''Eingangsrechnung'',
       WORKFLOW_TEMPLATE = ''dps.invoice.Base'',
       PROCESSED_DIR = ''C:/temp/pdf_import/processed'',
       ERROR_DIR = ''C:/temp/pdf_import/error'',
       MAX_FILE_SIZE = 50 * 1024 * 1024,
       ALLOWED_EXTENSIONS = [''.pdf''],
       EXCLUDE_PATTERNS = [''temp_*'', ''.*''],
       RETRY_ATTEMPTS = 3 \<rparr>"

section \<open>The file system\<close>

text \<open>
  A \<^verbatim>\<open>java.io.File\<close> is a directory and a name. What the scripts ask of a file is
  whether it exists, whether it is a regular file, whether it can be read, its length,
  its first bytes and its whole content. \<open>headerReadable\<close> says that opening the file
  and reading its first bytes does not throw, \<open>contentReadable\<close> the same of reading
  it whole for the upload.
\<close>

type_synonym jfile = "string \<times> string"

definition getName :: "jfile \<Rightarrow> string" where
  "getName f = snd f"

record fileinfo =
  isFile :: bool
  canRead :: bool
  bytes :: string
  headerReadable :: bool
  contentReadable :: bool

type_synonym filesystem = "(jfile \<times> fileinfo) list"

definition fexists :: "filesystem \<Rightarrow> jfile \<Rightarrow> bool" where
  "fexists fsys f = (map_of fsys f \<noteq> None)"

text \<open>
  Lines 389 to 392: a buffer of five bytes is filled from the start of the file.
  \<open>None\<close> is the exception of the \<^verbatim>\<open>catch (headerError)\<close> branch; otherwise the
  bytes read, whose number is \<^verbatim>\<open>bytesRead\<close>.
\<close>

definition readHeader :: "fileinfo \<Rightarrow> string option" where
  "readHeader info = (if headerReadable info then Some (take 5 (bytes info)) else None)"

section \<open>Validation (validatePDFFile, lines 335 to 413)\<close>

text \<open>The extension loop of lines 357 to 363.\<close>

fun hasValidExtension :: "string list \<Rightarrow> string \<Rightarrow> bool" where
  "hasValidExtension [] fileName = False"
| "hasValidExtension (ext # exts) fileName =
     (if endsWith fileName (toLowerCase ext) then True
      else hasValidExtension exts fileName)"

text \<open>
  The exclusion loop of lines 371 to 385: three tests per pattern, each rejecting;
  \<open>True\<close> is the \<^verbatim>\<open>return false\<close> of the loop (the file is excluded).
\<close>

fun excluded :: "string list \<Rightarrow> string \<Rightarrow> bool" where
  "excluded [] fileName = False"
| "excluded (pattern # patterns) fileName =
     (if startsWith pattern ''*'' \<and> endsWith fileName (substring1 pattern 1) then True
      else if endsWith pattern ''*''
              \<and> startsWith fileName (substring2 pattern 0 (int (length pattern) - 1)) then True
      else if containsStr fileName pattern then True
      else excluded patterns fileName)"

definition validatePDFFile :: "config \<Rightarrow> filesystem \<Rightarrow> jfile \<Rightarrow> bool" where
  "validatePDFFile c fsys pdfFile =
     (case map_of fsys pdfFile of
        None \<Rightarrow> False
      | Some info \<Rightarrow>
          if \<not> canRead info then False
          else if length (bytes info) = 0 then False
          else if length (bytes info) > MAX_FILE_SIZE c then False
          else if \<not> hasValidExtension (ALLOWED_EXTENSIONS c) (toLowerCase (getName pdfFile))
            then False
          else if excluded (EXCLUDE_PATTERNS c) (toLowerCase (getName pdfFile)) then False
          else (case readHeader info of
                  None \<Rightarrow> True
                | Some buffer \<Rightarrow>
                    if 4 \<le> length buffer
                    then (if take 4 buffer \<noteq> ''%PDF'' then False else True)
                    else True))"

text \<open>
  The first five checks of validatePDFFile alone (lines 337 to 385): existence and
  readability, size, extension, exclusion.
\<close>

definition passesEarlierChecks :: "config \<Rightarrow> filesystem \<Rightarrow> jfile \<Rightarrow> bool" where
  "passesEarlierChecks c fsys pdfFile =
     (case map_of fsys pdfFile of
        None \<Rightarrow> False
      | Some info \<Rightarrow>
          canRead info \<and> length (bytes info) \<noteq> 0 \<and> length (bytes info) \<le> MAX_FILE_SIZE c
          \<and> hasValidExtension (ALLOWED_EXTENSIONS c) (toLowerCase (getName pdfFile))
          \<and> \<not> excluded (EXCLUDE_PATTERNS c) (toLowerCase (getName pdfFile)))"

section \<open>The archive and the rest of the world\<close>

text \<open>
  The archive system is reached through \<^verbatim>\<open>ixConnect\<close> only. A record of the archive
  (a Sord) has an identity that the archive assigns at check-in, a name, a type, a
  parent, an optional metadata mask and, once a content check-in has ended, a document.
\<close>

datatype sordtype = LBT_FOLDER | LBT_DOCUMENT

record sord =
  sordId :: nat
  sordName :: string
  sordType :: sordtype
  sordParent :: nat
  sordMask :: "nat option"
  hasDocument :: bool

text \<open>The remote calls of the scripts; a call that names a record carries its identity.\<close>

datatype rcall =
    GetServerInfo
  | FindFirstSords
  | CreateSord
  | CheckinSord
  | CheckoutDocMasks
  | CheckinDocBegin nat
  | Upload nat
  | CheckinDocEnd nat
  | DeleteSord nat
  | CheckoutWorkFlow
  | CreateWorkFlow nat
  | StartWorkFlow nat

text \<open>
  An exception is either an \<^verbatim>\<open>Error\<close> the script throws itself, with its message, or
  the exception of a remote call that did not return.
\<close>

datatype error = JsError string | RemoteFault rcall

text \<open>
  The success rate of the summary: \<^verbatim>\<open>Math.round((p / (p + e)) * 100)\<close>. With
  \<open>p + e = 0\<close> the quotient is \<open>0 / 0\<close>, which is \<open>NaN\<close>, and stays \<open>NaN\<close> through the
  multiplication and the rounding. \<open>PercentOf p t\<close> stands for the finite number that
  the expression has for a total \<open>t > 0\<close>; its double-precision value is not computed.
\<close>

datatype percentage = NaN | PercentOf nat nat

text \<open>
  The log lines the properties below refer to: the start of an attempt (line 144), its
  failure (line 168), the exhaustion of the attempts (line 180), the failed workflow
  start (line 154), the failed clean-up of a record (line 239) and the summary with its
  totals and its rate (lines 517 to 523).
\<close>

datatype logline =
    AttemptStarted nat
  | AttemptFailed nat
  | AllAttemptsFailed
  | WorkflowStartFailed nat
  | CleanupFailed nat
  | Statistics nat nat percentage

text \<open>
  What a run does to the outside, in order: a remote call and whether it returned
  (\<open>True\<close>) or threw, a \<^verbatim>\<open>Thread.sleep\<close> with its milliseconds, a
  \<^verbatim>\<open>renameTo\<close> with its result, a log line.
\<close>

datatype event =
    Remote rcall bool
  | Sleep nat
  | Rename jfile jfile bool
  | Log logline

text \<open>
  The world a run acts on. Of the file system: the files, the directories, the clock
  (milliseconds since the epoch), and what the platform does on a rename
  (\<open>renameDenied\<close>: the rename is refused; \<open>renameReplaces\<close>: a rename onto an
  existing file replaces it, as on POSIX, instead of failing). Of the archive: its
  records, the next identity it assigns, its index search (\<open>indexSearch q s\<close>: the
  search for \<^verbatim>\<open>findByIndex.name = q\<close> finds the record \<open>s\<close>), its masks, its workflow
  templates and the records a workflow was started on. \<open>clock\<close> counts the remote
  calls made so far; the archive is unreachable at the calls \<open>n\<close> with \<open>down n\<close>, and
  \<open>uploadRefused n\<close> makes the upload at call \<open>n\<close> return a false value. Last the two
  counters of \<^verbatim>\<open>stats\<close> and the trace of events.
\<close>

record world =
  fs :: filesystem
  dirs :: "string list"
  now :: nat
  renameDenied :: "jfile \<Rightarrow> jfile \<Rightarrow> bool"
  renameReplaces :: bool
  mkdirDenied :: "string \<Rightarrow> bool"
  sords :: "sord list"
  nextId :: nat
  indexSearch :: "string \<Rightarrow> sord \<Rightarrow> bool"
  docMasks :: "(string \<times> nat) list"
  workflowTemplates :: "string list"
  started :: "nat list"
  clock :: nat
  down :: "nat \<Rightarrow> bool"
  uploadRefused :: "nat \<Rightarrow> bool"
  totalProcessed :: nat
  totalErrors :: nat
  trace :: "event list"

definition logEvent :: "logline \<Rightarrow> world \<Rightarrow> world" where
  "logEvent l w = w\<lparr>trace := trace w @ [Log l]\<rparr>"

definition sleep :: "nat \<Rightarrow> world \<Rightarrow> world" where
  "sleep ms w = w\<lparr>now := now w + ms, trace := trace w @ [Sleep ms]\<rparr>"

text \<open>A remote call: it returns (\<open>True\<close>) unless the archive is unreachable.\<close>

definition remote :: "rcall \<Rightarrow> world \<Rightarrow> bool \<times> world" where
  "remote rc w =
     (\<not> down w (clock w),
      w\<lparr>clock := Suc (clock w), trace := trace w @ [Remote rc (\<not> down w (clock w))]\<rparr>)"

text \<open>The events a run added: those of \<open>w'\<close> after the ones \<open>w\<close> already had.\<close>

definition since :: "world \<Rightarrow> world \<Rightarrow> event list" where
  "since w w' = drop (length (trace w)) (trace w')"

text \<open>The index search that compares the name searched for with the record's name.\<close>

definition nameSearch :: "string \<Rightarrow> sord \<Rightarrow> bool" where
  "nameSearch q s = (sordName s = q)"

section \<open>The Lifecycle Mover (moveFile, lines 607 to 629)\<close>

text \<open>
  \<^verbatim>\<open>dir.exists()\<close>: a directory exists when it is one of the directories of the world
  or holds a file.
\<close>

definition dirExists :: "world \<Rightarrow> string \<Rightarrow> bool" where
  "dirExists w d = (d \<in> set (dirs w) \<or> d \<in> set (map (\<lambda>e. fst (fst e)) (fs w)))"

text \<open>
  \<^verbatim>\<open>file.renameTo(targetFile)\<close> returns false, and changes nothing, when the file
  does not exist, when the directory of the target does not exist, when the platform
  refuses the rename, and when the target exists on a platform that does not replace.
  Otherwise the file is at the target, with its content, and no longer at the source;
  the directory it left is still there.
\<close>

definition renameTo :: "jfile \<Rightarrow> jfile \<Rightarrow> world \<Rightarrow> bool \<times> world" where
  "renameTo src dst w =
     (case map_of (fs w) src of
        None \<Rightarrow> (False, w\<lparr>trace := trace w @ [Rename src dst False]\<rparr>)
      | Some info \<Rightarrow>
          if \<not> dirExists w (fst dst) \<or> renameDenied w src dst
             \<or> (fexists (fs w) dst \<and> \<not> renameReplaces w)
          then (False, w\<lparr>trace := trace w @ [Rename src dst False]\<rparr>)
          else (True,
                w\<lparr>fs := (dst, info) # filter (\<lambda>e. fst e \<noteq> src \<and> fst e \<noteq> dst) (fs w),
                  dirs := List.insert (fst src) (dirs w),
                  trace := trace w @ [Rename src dst True]\<rparr>))"

text \<open>Lines 609 to 618: the target, with the timestamp when the plain target exists.\<close>

definition targetFile :: "jfile \<Rightarrow> string \<Rightarrow> world \<Rightarrow> jfile" where
  "targetFile file targetDir w =
     (if fexists (fs w) (targetDir, getName file)
      then (let fileName = getName file;
                baseName = substring2 fileName 0 (lastIndexOf fileName (CHR ''.''));
                extension = substring1 fileName (lastIndexOf fileName (CHR ''.''))
            in (targetDir, baseName @ ''_'' @ showNat (now w) @ extension))
      else (targetDir, getName file))"

definition moveFile :: "jfile \<Rightarrow> string \<Rightarrow> world \<Rightarrow> world" where
  "moveFile file targetDir w = snd (renameTo file (targetFile file targetDir w) w)"

definition moveFileToProcessedDir :: "config \<Rightarrow> jfile \<Rightarrow> world \<Rightarrow> world" where
  "moveFileToProcessedDir c file w = moveFile file (PROCESSED_DIR c) w"

definition moveFileToErrorDir :: "config \<Rightarrow> jfile \<Rightarrow> world \<Rightarrow> world" where
  "moveFileToErrorDir c file w = moveFile file (ERROR_DIR c) w"

section \<open>The archive transaction\<close>

text \<open>
  What a check-in and a delete do to the archive: the record is stored under the next
  identity, or the record of that identity is removed.
\<close>

definition storeSord :: "sord \<Rightarrow> world \<Rightarrow> world" where
  "storeSord s w = w\<lparr>sords := sords w @ [s], nextId := Suc (nextId w)\<rparr>"

definition removeSord :: "nat \<Rightarrow> world \<Rightarrow> world" where
  "removeSord sid w = w\<lparr>sords := filter (\<lambda>s. sordId s \<noteq> sid) (sords w)\<rparr>"

text \<open>The end of a content check-in: the record has its document.\<close>

definition attachDocument :: "nat \<Rightarrow> world \<Rightarrow> world" where
  "attachDocument sid w =
     w\<lparr>sords := map (\<lambda>s. if sordId s = sid then s\<lparr>hasDocument := True\<rparr> else s) (sords w)\<rparr>"

text \<open>
  The folder of lines 543 to 546, and the document of lines 201 to 216: its name is the
  file name up to the last dot, its mask the identity found when that is a true value
  (not \<^verbatim>\<open>null\<close>, not \<open>0\<close>).
\<close>

definition folderSord :: "config \<Rightarrow> nat \<Rightarrow> sord" where
  "folderSord c sid =
     \<lparr> sordId = sid, sordName = substring1 (ARCHIVE_PATH c) 1, sordType = LBT_FOLDER,
       sordParent = 1, sordMask = None, hasDocument = False \<rparr>"

definition documentSord :: "jfile \<Rightarrow> nat \<Rightarrow> nat option \<Rightarrow> nat \<Rightarrow> sord" where
  "documentSord pdfFile parentId maskId sid =
     \<lparr> sordId = sid,
       sordName = substring2 (getName pdfFile) 0 (lastIndexOf (getName pdfFile) (CHR ''.'')),
       sordType = LBT_DOCUMENT, sordParent = parentId,
       sordMask = (case maskId of None \<Rightarrow> None | Some m \<Rightarrow> if m = 0 then None else Some m),
       hasDocument = False \<rparr>"

text \<open>
  getOrCreateArchiveFolder (lines 527 to 556): the search takes the archive path as it
  is configured; the folder is created under the record \<open>1\<close> with the path less its
  first character as name.
\<close>

definition getOrCreateArchiveFolder :: "config \<Rightarrow> world \<Rightarrow> (error + nat) \<times> world" where
  "getOrCreateArchiveFolder c w =
     (case remote FindFirstSords w of
        (False, w1) \<Rightarrow> (Inl (RemoteFault FindFirstSords), w1)
      | (True, w1) \<Rightarrow>
          (case take 1 (filter (indexSearch w1 (ARCHIVE_PATH c)) (sords w1)) of
             s # rest \<Rightarrow> (Inr (sordId s), w1)
           | [] \<Rightarrow>
               (case remote CreateSord w1 of
                  (False, w2) \<Rightarrow> (Inl (RemoteFault CreateSord), w2)
                | (True, w2) \<Rightarrow>
                    (case remote CheckinSord w2 of
                       (False, w3) \<Rightarrow> (Inl (RemoteFault CheckinSord), w3)
                     | (True, w3) \<Rightarrow>
                         (Inr (nextId w3), storeSord (folderSord c (nextId w3)) w3)))))"

text \<open>
  getMaskId (lines 558 to 576): the identity of the first mask of that name;
  \<^verbatim>\<open>null\<close> when there is none, and also when the call throws.
\<close>

definition getMaskId :: "string \<Rightarrow> world \<Rightarrow> nat option \<times> world" where
  "getMaskId maskName w =
     (case remote CheckoutDocMasks w of
        (False, w1) \<Rightarrow> (None, w1)
      | (True, w1) \<Rightarrow> (map_option snd (find (\<lambda>m. fst m = maskName) (docMasks w1)), w1))"

text \<open>readFileInChunks (lines 501 to 508): the content, or \<^verbatim>\<open>null\<close>.\<close>

definition readFileInChunks :: "filesystem \<Rightarrow> jfile \<Rightarrow> string option" where
  "readFileInChunks fsys file =
     (case map_of fsys file of
        None \<Rightarrow> None
      | Some info \<Rightarrow> if contentReadable info then Some (bytes info) else None)"

text \<open>
  uploadPDFFile (lines 256 to 287): every failure inside, thrown or returned, ends in
  \<^verbatim>\<open>return false\<close>.
\<close>

definition uploadPDFFile :: "nat \<Rightarrow> jfile \<Rightarrow> world \<Rightarrow> bool \<times> world" where
  "uploadPDFFile sid pdfFile w =
     (case remote (CheckinDocBegin sid) w of
        (False, w1) \<Rightarrow> (False, w1)
      | (True, w1) \<Rightarrow>
          (case readFileInChunks (fs w1) pdfFile of
             None \<Rightarrow> (False, w1)
           | Some fileData \<Rightarrow>
               (case remote (Upload sid) w1 of
                  (False, w2) \<Rightarrow> (False, w2)
                | (True, w2) \<Rightarrow>
                    if uploadRefused w1 (clock w1) then (False, w2)
                    else (case remote (CheckinDocEnd sid) w2 of
                            (False, w3) \<Rightarrow> (False, w3)
                          | (True, w3) \<Rightarrow>
                              (True, attachDocument sid w3)))))"

text \<open>
  importFileToELOWithValidation (lines 190 to 248). setCustomMetadata (lines 475 to
  494) only computes local values and cannot fail.
\<close>

definition importFileToELOWithValidation :: "config \<Rightarrow> jfile \<Rightarrow> world \<Rightarrow> (error + nat) \<times> world" where
  "importFileToELOWithValidation c pdfFile w =
     (if \<not> validatePDFFile c (fs w) pdfFile then (Inl (JsError ''File validation failed''), w)
      else
       (case getOrCreateArchiveFolder c w of
          (Inl e, w1) \<Rightarrow> (Inl e, w1)
        | (Inr parentId, w1) \<Rightarrow>
            (case remote CreateSord w1 of
               (False, w2) \<Rightarrow> (Inl (RemoteFault CreateSord), w2)
             | (True, w2) \<Rightarrow>
                 (case getMaskId (METADATA_MASK c) w2 of
                    (maskId, w3) \<Rightarrow>
                      (case remote CheckinSord w3 of
                         (False, w4) \<Rightarrow> (Inl (RemoteFault CheckinSord), w4)
                       | (True, w4) \<Rightarrow>
                           (case uploadPDFFile (nextId w4) pdfFile
                                   (storeSord (documentSord pdfFile parentId maskId (nextId w4)) w4) of
                              (True, w5) \<Rightarrow> (Inr (nextId w4), w5)
                            | (False, w5) \<Rightarrow>
                                (case remote (DeleteSord (nextId w4)) w5 of
                                   (True, w6) \<Rightarrow>
                                     (Inl (JsError ''File upload failed''),
                                      removeSord (nextId w4) w6)
                                 | (False, w6) \<Rightarrow>
                                     (Inl (JsError ''File upload failed''),
                                      logEvent (CleanupFailed (nextId w4)) w6))))))))"

section \<open>The Workflow Trigger (startWorkflowWithRetry, lines 293 to 328)\<close>

text \<open>
  The body of the \<^verbatim>\<open>try\<close> block, lines 299 to 316: the template is checked out, an
  instance is created and started. A template the archive does not have comes back as a
  false value, and the script throws.
\<close>

definition startWorkflowAttempt :: "config \<Rightarrow> nat \<Rightarrow> world \<Rightarrow> error option \<times> world" where
  "startWorkflowAttempt c sid w =
     (case remote CheckoutWorkFlow w of
        (False, w1) \<Rightarrow> (Some (RemoteFault CheckoutWorkFlow), w1)
      | (True, w1) \<Rightarrow>
          if WORKFLOW_TEMPLATE c \<notin> set (workflowTemplates w1)
          then (Some (JsError ''Workflow template not found''), w1)
          else (case remote (CreateWorkFlow sid) w1 of
                  (False, w2) \<Rightarrow> (Some (RemoteFault (CreateWorkFlow sid)), w2)
                | (True, w2) \<Rightarrow>
                    (case remote (StartWorkFlow sid) w2 of
                       (False, w3) \<Rightarrow> (Some (RemoteFault (StartWorkFlow sid)), w3)
                     | (True, w3) \<Rightarrow> (None, w3\<lparr>started := started w3 @ [sid]\<rparr>))))"

definition maxAttempts :: nat where
  "maxAttempts = 2"

text \<open>
  The loop, from the value \<open>attempts\<close> has before an iteration. \<open>None\<close> is the
  \<^verbatim>\<open>return\<close>, \<open>Some e\<close> the exception thrown after the last attempt.
\<close>

function startWorkflowLoop :: "config \<Rightarrow> nat \<Rightarrow> nat \<Rightarrow> world \<Rightarrow> error option \<times> world" where
  "startWorkflowLoop c sid attempts w =
     (if attempts < maxAttempts then
        (case startWorkflowAttempt c sid w of
           (None, w1) \<Rightarrow> (None, w1)
         | (Some e, w1) \<Rightarrow>
             if Suc attempts < maxAttempts
             then startWorkflowLoop c sid (Suc attempts) (sleep 2000 w1)
             else (Some e, w1))
      else (None, w))"
  by pat_completeness auto
termination
  by (relation "measure (\<lambda>(c, sid, attempts, w). maxAttempts - attempts)") auto

declare startWorkflowLoop.simps [simp del]

definition startWorkflowWithRetry :: "config \<Rightarrow> nat \<Rightarrow> world \<Rightarrow> error option \<times> world" where
  "startWorkflowWithRetry c sid w = startWorkflowLoop c sid 0 w"

section \<open>The Retry/Backoff Controller (processSinglePDFWithRetry, lines 137 to 183)\<close>

text \<open>
  The \<^verbatim>\<open>catch\<close> block of lines 166 to 176, with the value \<open>attempts\<close> has there: the
  failure is logged and, while attempts remain, the thread sleeps
  \<^verbatim>\<open>Math.pow(2, attempts) * 1000\<close> milliseconds.
\<close>

definition onAttemptFailure :: "config \<Rightarrow> nat \<Rightarrow> world \<Rightarrow> world" where
  "onAttemptFailure c attempts w =
     (if attempts < RETRY_ATTEMPTS c
      then sleep (2 ^ attempts * 1000) (logEvent (AttemptFailed attempts) w)
      else logEvent (AttemptFailed attempts) w)"

text \<open>
  The loop, from the value \<open>attempts\<close> has before an iteration. An identity that is a
  false value (\<open>0\<close>) is thrown as an error like any other failure of the attempt.
\<close>

function retryLoop :: "config \<Rightarrow> jfile \<Rightarrow> nat \<Rightarrow> world \<Rightarrow> bool \<times> world" where
  "retryLoop c pdfFile attempts w =
     (if attempts < RETRY_ATTEMPTS c then
        (case importFileToELOWithValidation c pdfFile (logEvent (AttemptStarted (Suc attempts)) w) of
           (Inr sid, w1) \<Rightarrow>
             if sid \<noteq> 0 then
               (case startWorkflowWithRetry c sid w1 of
                  (None, w2) \<Rightarrow> (True, moveFileToProcessedDir c pdfFile w2)
                | (Some wfError, w2) \<Rightarrow>
                    (True, moveFileToProcessedDir c pdfFile (logEvent (WorkflowStartFailed sid) w2)))
             else retryLoop c pdfFile (Suc attempts) (onAttemptFailure c (Suc attempts) w1)
         | (Inl e, w1) \<Rightarrow>
             retryLoop c pdfFile (Suc attempts) (onAttemptFailure c (Suc attempts) w1))
      else (False, moveFileToErrorDir c pdfFile (logEvent AllAttemptsFailed w)))"
  by pat_completeness auto
termination
  by (relation "measure (\<lambda>(c, pdfFile, attempts, w). RETRY_ATTEMPTS c - attempts)") auto

declare retryLoop.simps [simp del]

definition processSinglePDFWithRetry :: "config \<Rightarrow> jfile \<Rightarrow> world \<Rightarrow> bool \<times> world" where
  "processSinglePDFWithRetry c pdfFile w = retryLoop c pdfFile 0 w"

section \<open>The scanner, the statistics and the cycle\<close>

text \<open>getValidPDFFiles (lines 420 to 447), in the order the directory lists its files.\<close>

definition listFiles :: "filesystem \<Rightarrow> string \<Rightarrow> jfile list" where
  "listFiles fsys dirPath = remdups (filter (\<lambda>f. fst f = dirPath) (map fst fsys))"

definition isRegularFile :: "filesystem \<Rightarrow> jfile \<Rightarrow> bool" where
  "isRegularFile fsys f = (case map_of fsys f of None \<Rightarrow> False | Some info \<Rightarrow> isFile info)"

definition getValidPDFFiles :: "config \<Rightarrow> string \<Rightarrow> world \<Rightarrow> jfile list" where
  "getValidPDFFiles c dirPath w =
     (if \<not> dirExists w dirPath then []
      else filter (\<lambda>f. isRegularFile (fs w) f \<and> validatePDFFile c (fs w) f)
             (listFiles (fs w) dirPath))"

text \<open>validateELOConnection (lines 453 to 468).\<close>

definition validateELOConnection :: "world \<Rightarrow> bool \<times> world" where
  "validateELOConnection w = remote GetServerInfo w"

text \<open>createDirectoryIfNotExists and ensureDirectoriesExist (lines 578 to 597).\<close>

definition createDirectoryIfNotExists :: "string \<Rightarrow> world \<Rightarrow> world" where
  "createDirectoryIfNotExists dirPath w =
     (if dirExists w dirPath then w
      else if mkdirDenied w dirPath then w
      else w\<lparr>dirs := dirPath # dirs w\<rparr>)"

definition ensureDirectoriesExist :: "config \<Rightarrow> world \<Rightarrow> world" where
  "ensureDirectoriesExist c w =
     createDirectoryIfNotExists (ERROR_DIR c)
       (createDirectoryIfNotExists (PROCESSED_DIR c)
          (createDirectoryIfNotExists (SOURCE_DIR c) w))"

text \<open>logStatistics (lines 513 to 524): the totals and the success rate.\<close>

definition successRate :: "nat \<Rightarrow> nat \<Rightarrow> percentage" where
  "successRate p e = (if p + e = 0 then NaN else PercentOf p (p + e))"

definition logStatistics :: "world \<Rightarrow> world" where
  "logStatistics w =
     logEvent (Statistics (totalProcessed w) (totalErrors w)
                 (successRate (totalProcessed w) (totalErrors w))) w"

text \<open>The loop over the files of a cycle (lines 101 to 116), counting the outcomes.\<close>

fun processAll :: "config \<Rightarrow> jfile list \<Rightarrow> world \<Rightarrow> world" where
  "processAll c [] w = w"
| "processAll c (pdfFile # pdfFiles) w =
     (case processSinglePDFWithRetry c pdfFile w of
        (True, w1) \<Rightarrow> processAll c pdfFiles (w1\<lparr>totalProcessed := Suc (totalProcessed w1)\<rparr>)
      | (False, w1) \<Rightarrow> processAll c pdfFiles (w1\<lparr>totalErrors := Suc (totalErrors w1)\<rparr>))"

text \<open>processPDFFiles (lines 71 to 130): one cycle.\<close>

definition processPDFFiles :: "config \<Rightarrow> world \<Rightarrow> world" where
  "processPDFFiles c w =
     (case validateELOConnection w of
        (False, w1) \<Rightarrow> w1
      | (True, w1) \<Rightarrow>
          (let w2 = ensureDirectoriesExist c w1;
               pdfFiles = getValidPDFFiles c (SOURCE_DIR c) w2
           in if length pdfFiles = 0 then w2
              else (let w3 = processAll c pdfFiles w2
                    in if (totalProcessed w3 + totalErrors w3) mod 10 = 0
                       then logStatistics w3 else w3)))"

text \<open>
  The sixth check of validatePDFFile alone (lines 387 to 404): what the header read
  must be for the validation to pass.
\<close>

definition headerCheckPasses :: "fileinfo \<Rightarrow> bool" where
  "headerCheckPasses info =
     (case readHeader info of
        None \<Rightarrow> True
      | Some buffer \<Rightarrow> length buffer < 4 \<or> take 4 buffer = ''%PDF'')"

text \<open>
  The exclusion check as the specification words it: a pattern \<open>*X\<close> matches a name
  that ends with \<open>X\<close>, a pattern \<open>X*\<close> a name that starts with \<open>X\<close>, and containment is
  tested for a pattern without a wildcard only.
\<close>

definition specMatches :: "string \<Rightarrow> string \<Rightarrow> bool" where
  "specMatches pattern fileName =
     ((startsWith pattern ''*'' \<and> endsWith fileName (drop 1 pattern))
      \<or> (endsWith pattern ''*'' \<and> startsWith fileName (butlast pattern))
      \<or> (CHR ''*'' \<notin> set pattern \<and> containsStr fileName pattern))"

definition specExcluded :: "string list \<Rightarrow> string \<Rightarrow> bool" where
  "specExcluded patterns fileName = (\<exists>p \<in> set patterns. specMatches p fileName)"

text \<open>The three tests the loop of lines 371 to 385 makes on one pattern.\<close>

definition patternRejects :: "string \<Rightarrow> string \<Rightarrow> bool" where
  "patternRejects pattern fileName =
     ((startsWith pattern ''*'' \<and> endsWith fileName (drop 1 pattern))
      \<or> (endsWith pattern ''*'' \<and> startsWith fileName (butlast pattern))
      \<or> containsStr fileName pattern)"

text \<open>
  A world to start concrete runs from: no files, an empty archive that is reachable and
  searches by name, the mask and the workflow template of the default configuration.
\<close>

definition world0 :: world where
  "world0 =
     \<lparr> fs = [], dirs = [], now = 0,
       renameDenied = (\<lambda>src dst. False), renameReplaces = True,
       mkdirDenied = (\<lambda>d. False),
       sords = [], nextId = 2, indexSearch = nameSearch,
       docMasks = [(''Eingangsrechnung'', 7)],
       workflowTemplates = [''dps.invoice.Base''], started = [],
       clock = 0, down = (\<lambda>n. False), uploadRefused = (\<lambda>n. False),
       totalProcessed = 0, totalErrors = 0, trace = [] \<rparr>"

definition pdfInfo :: "string \<Rightarrow> fileinfo" where
  "pdfInfo content =
     \<lparr> isFile = True, canRead = True, bytes = content,
       headerReadable = True, contentReadable = True \<rparr>"


text \<open>
  A world with one valid file in which the archive is unreachable at the fifth remote
  call of a run; in an import from an empty archive that call is the mask lookup.
\<close>

definition maskDownWorld :: world where
  "maskDownWorld =
     world0\<lparr>fs := [((''in'', ''a.pdf''), pdfInfo ''%PDF-1.4'')], dirs := [''in''],
            down := (\<lambda>n. n = 4)\<rparr>"

text \<open>A world with one valid file in which the archive is never reachable.\<close>

definition archiveDownWorld :: world where
  "archiveDownWorld =
     world0\<lparr>fs := [((''in'', ''a.pdf''), pdfInfo ''%PDF-1.4'')], dirs := [''in''],
            down := (\<lambda>n. True)\<rparr>"

text \<open>
  A world in which the file of the scan has been emptied since, and one in which it
  has been deleted. Both have the error directory.
\<close>

definition emptiedWorld :: world where
  "emptiedWorld =
     world0\<lparr>fs := [((''in'', ''a.pdf''), pdfInfo [])],
            dirs := [''in'', ''C:/temp/pdf_import/error'']\<rparr>"

definition deletedWorld :: world where
  "deletedWorld = world0\<lparr>dirs := [''in'', ''C:/temp/pdf_import/error'']\<rparr>"

text \<open>
  A world with nine files counted as processed and one valid file waiting: the tenth
  outcome of the process.
\<close>

definition tenthWorld :: world where
  "tenthWorld =
     world0\<lparr>fs := [((''C:/temp/pdf_import'', ''a.pdf''), pdfInfo ''%PDF-1.4'')],
            dirs := [''C:/temp/pdf_import''], totalProcessed := 9\<rparr>"

text \<open>The same world after the connectivity probe and the creation of the directories.\<close>

definition tenthScanned :: world where
  "tenthScanned =
     tenthWorld\<lparr>clock := 1, trace := [Remote GetServerInfo True],
       dirs := [''C:/temp/pdf_import/error'', ''C:/temp/pdf_import/processed'',
                ''C:/temp/pdf_import'']\<rparr>"



text \<open>
  A world with one valid file in which the upload returns a false value and the
  archive is unreachable afterwards, at the delete.
\<close>

definition uploadFailsWorld :: world where
  "uploadFailsWorld =
     world0\<lparr>fs := [((''in'', ''a.pdf''), pdfInfo ''%PDF-1.4'')], dirs := [''in''],
            uploadRefused := (\<lambda>n. True), down := (\<lambda>n. n = 8)\<rparr>"

text \<open>The projections of a trace the properties are about.\<close>

fun sleepsOf :: "event list \<Rightarrow> nat list" where
  "sleepsOf [] = []"
| "sleepsOf (e # es) = (case e of Sleep ms \<Rightarrow> ms # sleepsOf es | _ \<Rightarrow> sleepsOf es)"

fun statisticsOf :: "event list \<Rightarrow> (nat \<times> nat \<times> percentage) list" where
  "statisticsOf [] = []"
| "statisticsOf (e # es) =
     (case e of Log (Statistics p n r) \<Rightarrow> (p, n, r) # statisticsOf es | _ \<Rightarrow> statisticsOf es)"

fun failedCalls :: "event list \<Rightarrow> rcall list" where
  "failedCalls [] = []"
| "failedCalls (e # es) =
     (case e of Remote rc ok \<Rightarrow> (if ok then failedCalls es else rc # failedCalls es)
      | _ \<Rightarrow> failedCalls es)"

text \<open>The events of the archive transaction: remote calls and the failed clean-up.\<close>

fun archiveEvent :: "event \<Rightarrow> bool" where
  "archiveEvent (Remote rc ok) = True"
| "archiveEvent (Log (CleanupFailed sid)) = True"
| "archiveEvent e = False"

text \<open>
  \<open>extendsBy P w w'\<close>: the trace of \<open>w'\<close> is the trace of \<open>w\<close> followed by events that
  all satisfy \<open>P\<close>.
\<close>

definition extendsBy :: "(event \<Rightarrow> bool) \<Rightarrow> world \<Rightarrow> world \<Rightarrow> bool" where
  "extendsBy P w w' =
     (take (length (trace w)) (trace w') = trace w \<and> list_all P (since w w'))"

text \<open>
  What the archive transaction and the workflow trigger leave alone: the files and
  directories, what the platform does on a rename, when the archive is unreachable or
  refuses an upload, the counters, and the workflow templates.
\<close>

definition sameFiles :: "world \<Rightarrow> world \<Rightarrow> bool" where
  "sameFiles w w' =
     (fs w' = fs w \<and> dirs w' = dirs w
      \<and> renameDenied w' = renameDenied w \<and> renameReplaces w' = renameReplaces w
      \<and> down w' = down w \<and> uploadRefused w' = uploadRefused w
      \<and> totalProcessed w' = totalProcessed w \<and> totalErrors w' = totalErrors w
      \<and> workflowTemplates w' = workflowTemplates w)"

text \<open>
  The events of the workflow trigger, the events a summary is, and the events of the
  retry controller's failure handling.
\<close>

fun workflowEvent :: "event \<Rightarrow> bool" where
  "workflowEvent (Remote rc ok) = True"
| "workflowEvent (Sleep ms) = (ms = 2000)"
| "workflowEvent e = False"

fun isStatistics :: "event \<Rightarrow> bool" where
  "isStatistics (Log (Statistics p n r)) = True"
| "isStatistics e = False"

fun retryEvent :: "event \<Rightarrow> bool" where
  "retryEvent (Log (AttemptFailed k)) = True"
| "retryEvent (Sleep ms) = True"
| "retryEvent e = False"

text \<open>
  What the failures of the attempts after attempt \<open>a\<close> up to the last attempt \<open>R\<close> must
  leave in the trace: each failure, followed by its backoff sleep while attempts remain.
\<close>

definition backoffTrace :: "nat \<Rightarrow> nat \<Rightarrow> event list" where
  "backoffTrace R a =
     concat (map (\<lambda>k. if k < R then [Log (AttemptFailed k), Sleep (2 ^ k * 1000)]
                        else [Log (AttemptFailed k)]) [Suc a..<Suc R])"

text \<open>
  Kinds of events: a remote call that returned, or the mask lookup; an event other than
  the three calls of a content check-in; an event of the content check-in of one
  record.
\<close>

fun returnedOrMaskLookup :: "event \<Rightarrow> bool" where
  "returnedOrMaskLookup (Remote rc ok) = (ok \<or> rc = CheckoutDocMasks)"
| "returnedOrMaskLookup e = True"

fun notUploadEvent :: "event \<Rightarrow> bool" where
  "notUploadEvent (Remote (CheckinDocBegin sid) ok) = False"
| "notUploadEvent (Remote (Upload sid) ok) = False"
| "notUploadEvent (Remote (CheckinDocEnd sid) ok) = False"
| "notUploadEvent e = True"

fun uploadEventOf :: "nat \<Rightarrow> event \<Rightarrow> bool" where
  "uploadEventOf sid (Remote rc ok) =
     (rc = CheckinDocBegin sid \<or> rc = Upload sid \<or> rc = CheckinDocEnd sid)"
| "uploadEventOf sid e = False"

section \<open>Evaluating the string functions\<close>

lemmas strEval = endsWith_def startsWith_def containsStr_def substring1_def substring2_def
  clampIndex_def suffix_to_prefix sublist_Cons_right getName_def

lemma toLowerCase_bad: "toLowerCase ''bad.pdf'' = ''bad.pdf''"
  by code_simp

lemma toLowerCase_ext: "toLowerCase ''.pdf'' = ''.pdf''"
  by code_simp

text \<open>
  Beyond ASCII: the capital A with diaeresis (\<open>196\<close>) is lowered to \<open>228\<close>, the
  multiplication sign and the sharp s stay, and so the pattern of the one character
  \<open>228\<close> excludes a file whose name starts with the capital.
\<close>

lemma lowerChar_latin1:
  "lowerChar (char_of (196 :: nat)) = char_of (228 :: nat)"
  "lowerChar (char_of (215 :: nat)) = char_of (215 :: nat)"
  "lowerChar (char_of (223 :: nat)) = char_of (223 :: nat)"
  "lowerChar CHR ''Z'' = CHR ''z''"
  by code_simp+

lemma excluded_umlaut:
  "excluded [[char_of (228 :: nat)]] (toLowerCase (char_of (196 :: nat) # ''rger.pdf''))"
  by (simp add: toLowerCase_def lowerChar_def strEval Let_def)

lemma substring1_one: "substring1 p 1 = drop 1 p"
  by (cases p) (simp_all add: substring1_def clampIndex_def)

lemma substring2_butlast: "substring2 p 0 (int (length p) - 1) = butlast p"
  by (cases p rule: rev_cases) (simp_all add: substring2_def clampIndex_def)

section \<open>The content-signature check\<close>

lemma validate_split:
  "validatePDFFile c fsys f =
     (passesEarlierChecks c fsys f
      \<and> (\<forall>info. map_of fsys f = Some info \<longrightarrow> headerCheckPasses info))"
  by (auto simp: validatePDFFile_def passesEarlierChecks_def headerCheckPasses_def
           split: option.splits)

lemma bad_passes:
  "passesEarlierChecks defaultConfig [((''in'', ''bad.pdf''), pdfInfo ''ABCDE'')]
     (''in'', ''bad.pdf'')"
  by (simp add: passesEarlierChecks_def defaultConfig_def pdfInfo_def strEval
        toLowerCase_bad toLowerCase_ext)

text \<open>
  Claim C5, as stated, fails: \<^verbatim>\<open>bad.pdf\<close> with the content \<open>ABCDE\<close> passes the
  existence, size, extension and exclusion checks of the default configuration, its
  first four bytes are read and are not \<open>%PDF\<close>, and validatePDFFile returns false
  (line 398), so the header check does more than warn.
\<close>

theorem C5_counterexample:
  "passesEarlierChecks defaultConfig [((''in'', ''bad.pdf''), pdfInfo ''ABCDE'')]
     (''in'', ''bad.pdf'')
   \<and> readHeader (pdfInfo ''ABCDE'') = Some ''ABCDE''
   \<and> \<not> validatePDFFile defaultConfig [((''in'', ''bad.pdf''), pdfInfo ''ABCDE'')]
         (''in'', ''bad.pdf'')"
proof -
  have "\<not> headerCheckPasses (pdfInfo ''ABCDE'')"
    by (simp add: headerCheckPasses_def readHeader_def pdfInfo_def)
  then show ?thesis
    using bad_passes by (simp add: validate_split readHeader_def pdfInfo_def)
qed

text \<open>
  Claim C5, amended: for a file that passes the existence, size, extension and
  exclusion checks, the validation passes exactly when the header cannot be read, fewer
  than four bytes are read, or the first four bytes are \<open>%PDF\<close>. A file whose first
  four bytes are read and differ from \<open>%PDF\<close> is rejected: it is not among the files
  the scanner returns, and an import of it fails with "File validation failed" and
  leaves the world as it was.
\<close>

theorem C5_header_check:
  assumes "passesEarlierChecks c (fs w) f" and "map_of (fs w) f = Some info"
  shows "(validatePDFFile c (fs w) f \<longleftrightarrow> headerCheckPasses info)
       \<and> (\<not> headerCheckPasses info \<longrightarrow>
            f \<notin> set (getValidPDFFiles c d w)
          \<and> importFileToELOWithValidation c f w
              = (Inl (JsError ''File validation failed''), w))"
  using assms
  by (simp add: validate_split getValidPDFFiles_def importFileToELOWithValidation_def)

theorem C5_header_check_witness:
  "passesEarlierChecks defaultConfig
     (fs (world0\<lparr>fs := [((''in'', ''bad.pdf''), pdfInfo ''ABCDE'')], dirs := [''in'']\<rparr>))
     (''in'', ''bad.pdf'')
   \<and> map_of (fs (world0\<lparr>fs := [((''in'', ''bad.pdf''), pdfInfo ''ABCDE'')],
                         dirs := [''in'']\<rparr>))
        (''in'', ''bad.pdf'') = Some (pdfInfo ''ABCDE'')
   \<and> \<not> headerCheckPasses (pdfInfo ''ABCDE'')
   \<and> (''in'', ''bad.pdf'')
       \<notin> set (getValidPDFFiles defaultConfig ''in''
                (world0\<lparr>fs := [((''in'', ''bad.pdf''), pdfInfo ''ABCDE'')],
                         dirs := [''in'']\<rparr>))"
  using C5_header_check [of defaultConfig
      "world0\<lparr>fs := [((''in'', ''bad.pdf''), pdfInfo ''ABCDE'')], dirs := [''in'']\<rparr>"
      "(''in'', ''bad.pdf'')" "pdfInfo ''ABCDE''" "''in''"]
    bad_passes
  by (simp add: headerCheckPasses_def readHeader_def pdfInfo_def)

section \<open>The exclusion patterns\<close>

lemma excluded_iff:
  "excluded patterns fileName \<longleftrightarrow> (\<exists>p \<in> set patterns. patternRejects p fileName)"
  by (induction patterns) (auto simp: patternRejects_def substring1_one substring2_butlast)

lemma contains_star_free:
  assumes "CHR ''*'' \<notin> set fileName" and "containsStr fileName pattern"
  shows "CHR ''*'' \<notin> set pattern"
proof -
  from assms(2) have "set pattern \<subseteq> set fileName"
    by (auto simp: containsStr_def sublist_def)
  with assms(1) show ?thesis by blast
qed

lemma patternRejects_star_free:
  "CHR ''*'' \<notin> set fileName \<Longrightarrow> patternRejects p fileName = specMatches p fileName"
  using contains_star_free [of fileName p]
  by (auto simp: patternRejects_def specMatches_def)

text \<open>
  Claim C6, as stated, fails: the containment test of line 381 has no guard, so it is
  made for a pattern with a wildcard too. The name \<^verbatim>\<open>x_temp_*.pdf\<close> neither starts
  with \<^verbatim>\<open>temp_\<close> nor is the pattern \<^verbatim>\<open>temp_*\<close> free of wildcards, yet the loop
  rejects it, because the name contains the pattern literally.
\<close>

theorem C6_counterexample:
  "excluded [''temp_*''] ''x_temp_*.pdf'' \<and> \<not> specExcluded [''temp_*''] ''x_temp_*.pdf''"
  by (simp add: specExcluded_def specMatches_def strEval)

text \<open>
  Claim C6, amended: the exclusion check rejects a (lower-cased) file name exactly when
  some pattern rejects it, where a pattern rejects when it starts with \<open>*\<close> and the name
  ends with the rest, or it ends with \<open>*\<close> and the name starts with what is before, or
  the name contains the pattern as it is written, wildcard or not. For every file name
  without the character \<open>*\<close> this is the check as the claim words it.
\<close>

theorem C6_exclusion:
  "(excluded patterns fileName \<longleftrightarrow> (\<exists>p \<in> set patterns. patternRejects p fileName))
   \<and> (CHR ''*'' \<notin> set fileName \<longrightarrow>
        (excluded patterns fileName \<longleftrightarrow> specExcluded patterns fileName))"
  by (simp add: excluded_iff specExcluded_def patternRejects_star_free)

theorem C6_exclusion_witness:
  "CHR ''*'' \<notin> set ''temp_a.pdf''
   \<and> excluded (EXCLUDE_PATTERNS defaultConfig) ''temp_a.pdf''
   \<and> specExcluded (EXCLUDE_PATTERNS defaultConfig) ''temp_a.pdf''"
  using C6_exclusion [of "EXCLUDE_PATTERNS defaultConfig" "''temp_a.pdf''"]
  by (simp add: defaultConfig_def patternRejects_def strEval)

section \<open>The Lifecycle Mover: collisions\<close>

lemma map_of_filter_fst:
  "map_of (filter (\<lambda>e. P (fst e)) xs) k = (if P k then map_of xs k else None)"
  by (induction xs) auto


lemma showNat_nonempty: "showNat n \<noteq> []"
  by (subst showNat.simps) simp



lemma targetFile_fst: "fst (targetFile file targetDir w) = targetDir"
  by (simp add: targetFile_def Let_def)












section \<open>Traces\<close>

lemma extendsBy_iff: "extendsBy P w w' \<longleftrightarrow> (\<exists>es. trace w' = trace w @ es \<and> list_all P es)"
proof
  assume "extendsBy P w w'"
  then have "trace w' = trace w @ since w w' \<and> list_all P (since w w')"
    unfolding extendsBy_def since_def by (metis append_take_drop_id)
  then show "\<exists>es. trace w' = trace w @ es \<and> list_all P es" by blast
next
  assume "\<exists>es. trace w' = trace w @ es \<and> list_all P es"
  then show "extendsBy P w w'" by (auto simp: extendsBy_def since_def)
qed

lemma extendsByI: "trace w' = trace w @ es \<Longrightarrow> list_all P es \<Longrightarrow> extendsBy P w w'"
  by (auto simp: extendsBy_iff)

lemma extendsBy_refl: "trace w' = trace w \<Longrightarrow> extendsBy P w w'"
  by (simp add: extendsBy_def since_def)

lemma extendsBy_trace: "extendsBy P w w' \<Longrightarrow> trace w' = trace w @ since w w'"
  unfolding extendsBy_def since_def by (metis append_take_drop_id)

lemma extendsBy_all: "extendsBy P w w' \<Longrightarrow> list_all P (since w w')"
  by (simp add: extendsBy_def)

lemma since_append: "trace w' = trace w @ es \<Longrightarrow> since w w' = es"
  by (simp add: since_def)

lemma since_trans:
  assumes "extendsBy P w w1" and "extendsBy Q w1 w2"
  shows "since w w2 = since w w1 @ since w1 w2"
proof -
  have "trace w2 = trace w @ (since w w1 @ since w1 w2)"
    using extendsBy_trace [OF assms(1)] extendsBy_trace [OF assms(2)] by simp
  then show ?thesis by (rule since_append)
qed

lemma extendsBy_trans:
  assumes "extendsBy P w w1" and "extendsBy P w1 w2"
  shows "extendsBy P w w2"
proof -
  have "trace w2 = trace w @ (since w w1 @ since w1 w2)"
    using extendsBy_trace [OF assms(1)] extendsBy_trace [OF assms(2)] by simp
  moreover have "list_all P (since w w1 @ since w1 w2)"
    using extendsBy_all [OF assms(1)] extendsBy_all [OF assms(2)] by simp
  ultimately show ?thesis by (rule extendsByI)
qed

lemma extendsBy_mono:
  assumes "extendsBy P w w'" and "\<And>e. P e \<Longrightarrow> Q e"
  shows "extendsBy Q w w'"
  using assms by (auto simp: extendsBy_def list_all_iff)

lemma sameFiles_refl: "sameFiles w w"
  by (simp add: sameFiles_def)

lemma sameFiles_trans: "sameFiles w w1 \<Longrightarrow> sameFiles w1 w2 \<Longrightarrow> sameFiles w w2"
  by (simp add: sameFiles_def)

section \<open>The steps of the archive transaction\<close>

lemma remote_step:
  assumes "remote rc w = (ok, w')"
  shows "trace w' = trace w @ [Remote rc ok]" and "sameFiles w w'"
    and "sords w' = sords w" and "nextId w' = nextId w" and "ok = (\<not> down w (clock w))"
  using assms by (auto simp: remote_def sameFiles_def)

lemma remote_extends:
  assumes "remote rc w = (ok, w')" and "P (Remote rc ok)"
  shows "extendsBy P w w'"
  using remote_step(1) [OF assms(1)] assms(2) by (auto intro: extendsByI)

lemma remote_since: "remote rc w = (ok, w') \<Longrightarrow> since w w' = [Remote rc ok]"
  by (auto simp: remote_def since_def)

lemma storeSord_simps [simp]:
  "trace (storeSord s w) = trace w" "sameFiles w0 (storeSord s w) = sameFiles w0 w"
  "sameFiles (storeSord s w) w' = sameFiles w w'"
  "since (storeSord s w) w' = since w w'" "since w0 (storeSord s w) = since w0 w"
  "extendsBy P (storeSord s w) w' = extendsBy P w w'"
  "extendsBy P w0 (storeSord s w) = extendsBy P w0 w"
  by (simp_all add: storeSord_def sameFiles_def since_def extendsBy_def)

lemma removeSord_simps [simp]:
  "trace (removeSord s w) = trace w" "sameFiles w0 (removeSord s w) = sameFiles w0 w"
  "since w0 (removeSord s w) = since w0 w"
  "extendsBy P w0 (removeSord s w) = extendsBy P w0 w"
  by (simp_all add: removeSord_def sameFiles_def since_def extendsBy_def)

lemma attachDocument_simps [simp]:
  "trace (attachDocument s w) = trace w" "sameFiles w0 (attachDocument s w) = sameFiles w0 w"
  "since w0 (attachDocument s w) = since w0 w"
  "extendsBy P w0 (attachDocument s w) = extendsBy P w0 w"
  by (simp_all add: attachDocument_def sameFiles_def since_def extendsBy_def)

lemma getOrCreate_step:
  assumes "getOrCreateArchiveFolder c w = (r, w')"
  shows "sameFiles w w'"
    and "extendsBy (\<lambda>e. archiveEvent e \<and> notUploadEvent e) w w'"
    and "r = Inr p \<Longrightarrow> extendsBy returnedOrMaskLookup w w'"
  using assms
  by (auto simp: getOrCreateArchiveFolder_def remote_def sameFiles_def extendsBy_def since_def
        storeSord_def split: bool.splits list.splits if_splits)

lemma getMaskId_step:
  assumes "getMaskId m w = (r, w')"
  shows "sameFiles w w'" and "sords w' = sords w" and "nextId w' = nextId w"
    and "extendsBy (\<lambda>e. archiveEvent e \<and> notUploadEvent e \<and> returnedOrMaskLookup e) w w'"
  using assms
  by (auto simp: getMaskId_def remote_def sameFiles_def extendsBy_def since_def
           split: bool.splits)

lemma upload_step:
  assumes "uploadPDFFile sid f w = (r, w')"
  shows "sameFiles w w'"
    and "extendsBy (\<lambda>e. archiveEvent e \<and> uploadEventOf sid e) w w'"
    and "r \<Longrightarrow> extendsBy returnedOrMaskLookup w w'"
    and "\<exists>ok. Remote (CheckinDocBegin sid) ok \<in> set (since w w')"
  using assms
  by (auto simp: uploadPDFFile_def remote_def sameFiles_def extendsBy_def since_def
        attachDocument_def split: bool.splits option.splits if_splits)

text \<open>
  When the upload function returns true: exactly when the end of the content check-in
  returned. It returns false when the content cannot be read, when the archive refuses
  the upload, and when one of its three calls throws.
\<close>

lemma upload_outcome:
  assumes "uploadPDFFile sid f w = (r, w')"
  shows "r \<longleftrightarrow> Remote (CheckinDocEnd sid) True \<in> set (since w w')"
    and "readFileInChunks (fs w) f = None \<Longrightarrow> \<not> r"
    and "\<forall>n. uploadRefused w n \<Longrightarrow> \<not> r"
    and "Remote rc False \<in> set (since w w') \<Longrightarrow> \<not> r"
    and "\<not> r \<Longrightarrow> sords w' = sords w"
    and "\<exists>ok rest. since w w' = Remote (CheckinDocBegin sid) ok # rest"
  using assms
  by (auto simp: uploadPDFFile_def remote_def since_def attachDocument_def
        split: bool.splits option.splits if_splits)

subsection \<open>The transaction as a whole\<close>

lemma import_cases [consumes 1, case_names invalid folder create checkin success rollback]:
  assumes "importFileToELOWithValidation c f w = (r, w')"
  obtains
    "\<not> validatePDFFile c (fs w) f" and "r = Inl (JsError ''File validation failed'')" and "w' = w"
  | e where "validatePDFFile c (fs w) f" and "getOrCreateArchiveFolder c w = (Inl e, w')"
      and "r = Inl e"
  | p w1 where "validatePDFFile c (fs w) f" and "getOrCreateArchiveFolder c w = (Inr p, w1)"
      and "remote CreateSord w1 = (False, w')" and "r = Inl (RemoteFault CreateSord)"
  | p w1 w2 m w3 where "validatePDFFile c (fs w) f"
      and "getOrCreateArchiveFolder c w = (Inr p, w1)"
      and "remote CreateSord w1 = (True, w2)" and "getMaskId (METADATA_MASK c) w2 = (m, w3)"
      and "remote CheckinSord w3 = (False, w')" and "r = Inl (RemoteFault CheckinSord)"
  | p w1 w2 m w3 w4 where "validatePDFFile c (fs w) f"
      and "getOrCreateArchiveFolder c w = (Inr p, w1)"
      and "remote CreateSord w1 = (True, w2)" and "getMaskId (METADATA_MASK c) w2 = (m, w3)"
      and "remote CheckinSord w3 = (True, w4)"
      and "uploadPDFFile (nextId w4) f (storeSord (documentSord f p m (nextId w4)) w4) = (True, w')"
      and "r = Inr (nextId w4)"
  | p w1 w2 m w3 w4 w5 ok w6 where "validatePDFFile c (fs w) f"
      and "getOrCreateArchiveFolder c w = (Inr p, w1)"
      and "remote CreateSord w1 = (True, w2)" and "getMaskId (METADATA_MASK c) w2 = (m, w3)"
      and "remote CheckinSord w3 = (True, w4)"
      and "uploadPDFFile (nextId w4) f (storeSord (documentSord f p m (nextId w4)) w4) = (False, w5)"
      and "remote (DeleteSord (nextId w4)) w5 = (ok, w6)"
      and "w' = (if ok then removeSord (nextId w4) w6 else logEvent (CleanupFailed (nextId w4)) w6)"
      and "r = Inl (JsError ''File upload failed'')"
proof (cases "validatePDFFile c (fs w) f")
  case False
  with assms show ?thesis
    by (intro that(1)) (simp_all add: importFileToELOWithValidation_def)
next
  case v: True
  obtain r1 w1 where g: "getOrCreateArchiveFolder c w = (r1, w1)" by fastforce
  show ?thesis
  proof (cases r1)
    case (Inl e)
    with assms v g show ?thesis
      by (intro that(2) [of e]) (simp_all add: importFileToELOWithValidation_def)
  next
    case (Inr p)
    note g = g [unfolded Inr]
    obtain b2 w2 where c2: "remote CreateSord w1 = (b2, w2)" by fastforce
    show ?thesis
    proof (cases b2)
      case False
      with assms v g c2 show ?thesis
        by (intro that(3) [of p w1]) (simp_all add: importFileToELOWithValidation_def)
    next
      case True
      with c2 have c2: "remote CreateSord w1 = (True, w2)" by simp
      obtain m w3 where m: "getMaskId (METADATA_MASK c) w2 = (m, w3)" by fastforce
      obtain b4 w4 where c4: "remote CheckinSord w3 = (b4, w4)" by fastforce
      show ?thesis
      proof (cases b4)
        case False
        with assms v g c2 m c4 show ?thesis
          by (intro that(4) [of p w1 w2 m w3]) (simp_all add: importFileToELOWithValidation_def)
      next
        case True
        with c4 have c4: "remote CheckinSord w3 = (True, w4)" by simp
        obtain b5 w5 where u: "uploadPDFFile (nextId w4) f (storeSord (documentSord f p m (nextId w4)) w4) = (b5, w5)"
          by fastforce
        show ?thesis
        proof (cases b5)
          case True
          with assms v g c2 m c4 u show ?thesis
            by (intro that(5) [of p w1 w2 m w3 w4]) (simp_all add: importFileToELOWithValidation_def)
        next
          case False
          with u have u: "uploadPDFFile (nextId w4) f (storeSord (documentSord f p m (nextId w4)) w4) = (False, w5)"
            by simp
          obtain ok w6 where d: "remote (DeleteSord (nextId w4)) w5 = (ok, w6)" by fastforce
          with assms v g c2 m c4 u show ?thesis
            by (intro that(6) [of p w1 w2 m w3 w4 w5 ok w6])
               (simp_all add: importFileToELOWithValidation_def split: bool.splits)
        qed
      qed
    qed
  qed
qed

lemma logEvent_simps [simp]:
  "trace (logEvent l w) = trace w @ [Log l]" "sameFiles w0 (logEvent l w) = sameFiles w0 w"
  "sameFiles (logEvent l w) w' = sameFiles w w'"
  "sords (logEvent l w) = sords w" "fs (logEvent l w) = fs w" "clock (logEvent l w) = clock w"
  "nextId (logEvent l w) = nextId w"
  by (simp_all add: logEvent_def sameFiles_def)

lemma import_effects:
  assumes "importFileToELOWithValidation c f w = (r, w')"
  shows "sameFiles w w'" and "extendsBy archiveEvent w w'"
proof -
  have "sameFiles w w' \<and> extendsBy archiveEvent w w'"
    using assms
  proof (cases rule: import_cases)
    case invalid
    then show ?thesis by (simp add: sameFiles_refl extendsBy_refl)
  next
    case (folder e)
    then show ?thesis
      using getOrCreate_step(1,2) [of c w "Inl e" w'] by (auto elim: extendsBy_mono)
  next
    case (create p w1)
    have "extendsBy archiveEvent w w1"
      using getOrCreate_step(2) [OF create(2)] by (auto elim: extendsBy_mono)
    moreover have "extendsBy archiveEvent w1 w'"
      using create(3) by (rule remote_extends) simp
    ultimately have "extendsBy archiveEvent w w'" by (rule extendsBy_trans)
    moreover have "sameFiles w w'"
      using getOrCreate_step(1) [OF create(2)] remote_step(2) [OF create(3)]
      by (rule sameFiles_trans)
    ultimately show ?thesis by simp
  next
    case (checkin p w1 w2 m w3)
    have "extendsBy archiveEvent w w1"
      using getOrCreate_step(2) [OF checkin(2)] by (auto elim: extendsBy_mono)
    moreover have "extendsBy archiveEvent w1 w2"
      using checkin(3) by (rule remote_extends) simp
    moreover have "extendsBy archiveEvent w2 w3"
      using getMaskId_step(4) [OF checkin(4)] by (auto elim: extendsBy_mono)
    moreover have "extendsBy archiveEvent w3 w'"
      using checkin(5) by (rule remote_extends) simp
    ultimately have "extendsBy archiveEvent w w'" by (blast intro: extendsBy_trans)
    moreover have "sameFiles w w'"
      using getOrCreate_step(1) [OF checkin(2)] remote_step(2) [OF checkin(3)]
        getMaskId_step(1) [OF checkin(4)] remote_step(2) [OF checkin(5)]
      by (blast intro: sameFiles_trans)
    ultimately show ?thesis by simp
  next
    case (success p w1 w2 m w3 w4)
    have "extendsBy archiveEvent w w1"
      using getOrCreate_step(2) [OF success(2)] by (auto elim: extendsBy_mono)
    moreover have "extendsBy archiveEvent w1 w2"
      using success(3) by (rule remote_extends) simp
    moreover have "extendsBy archiveEvent w2 w3"
      using getMaskId_step(4) [OF success(4)] by (auto elim: extendsBy_mono)
    moreover have "extendsBy archiveEvent w3 w4"
      using success(5) by (rule remote_extends) simp
    moreover have "extendsBy archiveEvent w4 w'"
      using upload_step(2) [OF success(6)] by (auto elim: extendsBy_mono)
    ultimately have "extendsBy archiveEvent w w'" by (blast intro: extendsBy_trans)
    moreover have "sameFiles w w'"
      using getOrCreate_step(1) [OF success(2)] remote_step(2) [OF success(3)]
        getMaskId_step(1) [OF success(4)] remote_step(2) [OF success(5)]
        upload_step(1) [OF success(6), simplified]
      by (blast intro: sameFiles_trans)
    ultimately show ?thesis by simp
  next
    case (rollback p w1 w2 m w3 w4 w5 ok w6)
    have "extendsBy archiveEvent w w1"
      using getOrCreate_step(2) [OF rollback(2)] by (auto elim: extendsBy_mono)
    moreover have "extendsBy archiveEvent w1 w2"
      using rollback(3) by (rule remote_extends) simp
    moreover have "extendsBy archiveEvent w2 w3"
      using getMaskId_step(4) [OF rollback(4)] by (auto elim: extendsBy_mono)
    moreover have "extendsBy archiveEvent w3 w4"
      using rollback(5) by (rule remote_extends) simp
    moreover have "extendsBy archiveEvent w4 w5"
      using upload_step(2) [OF rollback(6)] by (auto elim: extendsBy_mono)
    moreover have "extendsBy archiveEvent w5 w6"
      using rollback(7) by (rule remote_extends) simp
    moreover have "extendsBy archiveEvent w6 w'"
      using rollback(8) by (auto simp: extendsBy_iff)
    ultimately have "extendsBy archiveEvent w w'" by (blast intro: extendsBy_trans)
    moreover have "sameFiles w w'"
      using getOrCreate_step(1) [OF rollback(2)] remote_step(2) [OF rollback(3)]
        getMaskId_step(1) [OF rollback(4)] remote_step(2) [OF rollback(5)]
        upload_step(1) [OF rollback(6), simplified] remote_step(2) [OF rollback(7)]
      by (simp add: rollback(8)) (blast intro: sameFiles_trans)
    ultimately show ?thesis by simp
  qed
  then show "sameFiles w w'" and "extendsBy archiveEvent w w'" by simp_all
qed

section \<open>The destination container\<close>

lemma folder_created_only_when_absent:
  assumes "getOrCreateArchiveFolder c w = (r, w')" and "sords w' \<noteq> sords w"
  shows "filter (indexSearch w (ARCHIVE_PATH c)) (sords w) = []
       \<and> r = Inr (nextId w) \<and> sords w' = sords w @ [folderSord c (nextId w)]"
  using assms
  by (auto simp: getOrCreateArchiveFolder_def remote_def storeSord_def
           split: bool.splits list.splits if_splits)

lemma folder_found_when_present:
  assumes "filter (indexSearch w (ARCHIVE_PATH c)) (sords w) = s # rest"
    and "\<not> down w (clock w)"
  shows "fst (getOrCreateArchiveFolder c w) = Inr (sordId s)
       \<and> sords (snd (getOrCreateArchiveFolder c w)) = sords w"
  using assms by (simp add: getOrCreateArchiveFolder_def remote_def)

lemma created_name_differs:
  "ARCHIVE_PATH c \<noteq> [] \<Longrightarrow> \<not> nameSearch (ARCHIVE_PATH c) (folderSord c sid)"
proof
  assume "ARCHIVE_PATH c \<noteq> []" and "nameSearch (ARCHIVE_PATH c) (folderSord c sid)"
  then have "length (substring1 (ARCHIVE_PATH c) 1) = length (ARCHIVE_PATH c)"
    by (simp add: nameSearch_def folderSord_def)
  with \<open>ARCHIVE_PATH c \<noteq> []\<close> show False
    by (cases "ARCHIVE_PATH c") (simp_all add: substring1_def clampIndex_def)
qed

lemma folder_recreated_by_name_search:
  assumes "indexSearch w = nameSearch" and "ARCHIVE_PATH c \<noteq> []"
    and "\<forall>s \<in> set (sords w). sordName s \<noteq> ARCHIVE_PATH c"
    and "\<not> down w (clock w)" and "\<not> down w (Suc (clock w))"
    and "\<not> down w (Suc (Suc (clock w)))"
  shows "fst (getOrCreateArchiveFolder c w) = Inr (nextId w)"
    and "sords (snd (getOrCreateArchiveFolder c w)) = sords w @ [folderSord c (nextId w)]"
    and "\<forall>s \<in> set (sords (snd (getOrCreateArchiveFolder c w))). sordName s \<noteq> ARCHIVE_PATH c"
    and "indexSearch (snd (getOrCreateArchiveFolder c w)) = nameSearch"
proof -
  have none: "filter (nameSearch (ARCHIVE_PATH c)) (sords w) = []"
    using assms(3) by (auto simp: filter_empty_conv nameSearch_def)
  have run: "getOrCreateArchiveFolder c w
      = (Inr (nextId w),
         storeSord (folderSord c (nextId w))
           (w\<lparr>clock := Suc (Suc (Suc (clock w))),
              trace := trace w @ [Remote FindFirstSords True, Remote CreateSord True,
                                  Remote CheckinSord True]\<rparr>))"
    using assms(1,4,5,6) none by (simp add: getOrCreateArchiveFolder_def remote_def)
  show "fst (getOrCreateArchiveFolder c w) = Inr (nextId w)" by (simp add: run)
  show "sords (snd (getOrCreateArchiveFolder c w)) = sords w @ [folderSord c (nextId w)]"
    by (simp add: run storeSord_def)
  show "\<forall>s \<in> set (sords (snd (getOrCreateArchiveFolder c w))). sordName s \<noteq> ARCHIVE_PATH c"
    using assms(3) created_name_differs [OF assms(2), of "nextId w"]
    by (auto simp: run storeSord_def nameSearch_def)
  show "indexSearch (snd (getOrCreateArchiveFolder c w)) = nameSearch"
    using assms(1) by (simp add: run storeSord_def)
qed

text \<open>
  Claim C1 against the code: with the default configuration, an empty archive that is
  reachable and an index search that compares the name searched for with the names of
  the records, two calls of getOrCreateArchiveFolder create two folders. The search is
  made for the archive path as configured, with its leading pilcrow (line 532), and the
  folder is stored under the path less that character (line 544), so the search of the
  second call does not find the folder of the first.
\<close>

theorem C1_folder_created_twice:
  "fst (getOrCreateArchiveFolder defaultConfig world0) = Inr 2
   \<and> fst (getOrCreateArchiveFolder defaultConfig
            (snd (getOrCreateArchiveFolder defaultConfig world0))) = Inr 3
   \<and> map sordName
        (sords (snd (getOrCreateArchiveFolder defaultConfig
                       (snd (getOrCreateArchiveFolder defaultConfig world0)))))
      = [''Eingangsrechnungen'', ''Eingangsrechnungen'']
   \<and> map sordId
        (sords (snd (getOrCreateArchiveFolder defaultConfig
                       (snd (getOrCreateArchiveFolder defaultConfig world0)))))
      = [2, 3]"
  by (simp add: getOrCreateArchiveFolder_def remote_def storeSord_def folderSord_def
        nameSearch_def substring1_def clampIndex_def defaultConfig_def world0_def)

section \<open>Connectivity errors during an attempt\<close>

lemma import_returns:
  assumes "importFileToELOWithValidation c f w = (Inr sid, w')"
  shows "extendsBy returnedOrMaskLookup w w'"
  using assms
proof (cases rule: import_cases)
  case (success p w1 w2 m w3 w4)
  have "extendsBy returnedOrMaskLookup w w1"
    using getOrCreate_step(3) [OF success(2)] by simp
  moreover have "extendsBy returnedOrMaskLookup w1 w2"
    using success(3) by (rule remote_extends) simp
  moreover have "extendsBy returnedOrMaskLookup w2 w3"
    using getMaskId_step(4) [OF success(4)] by (auto elim: extendsBy_mono)
  moreover have "extendsBy returnedOrMaskLookup w3 w4"
    using success(5) by (rule remote_extends) simp
  moreover have "extendsBy returnedOrMaskLookup w4 w'"
    using upload_step(3) [OF success(6)] by simp
  ultimately show ?thesis by (blast intro: extendsBy_trans)
qed simp_all

lemma since_logEvent: "extendsBy P (logEvent l w) w' \<Longrightarrow> since w w' = Log l # since (logEvent l w) w'"
  using extendsBy_trace [of P "logEvent l w" w'] since_append [of w' w "Log l # since (logEvent l w) w'"]
  by simp

text \<open>
  Claim C8, amended: when a remote call of an import attempt other than the mask
  lookup throws, the attempt is aborted (the transaction returns no record identity)
  and the retry loop goes on with the attempt counted: the failure is logged, the
  backoff is taken, and the next iteration starts from the incremented counter.
\<close>

theorem C8_connectivity:
  assumes "a < RETRY_ATTEMPTS c"
    and "importFileToELOWithValidation c f (logEvent (AttemptStarted (Suc a)) w) = (r, w')"
    and "Remote rc False \<in> set (since w w')" and "rc \<noteq> CheckoutDocMasks"
  shows "(\<exists>e. r = Inl e)
       \<and> retryLoop c f a w = retryLoop c f (Suc a) (onAttemptFailure c (Suc a) w')"
proof -
  have e: "\<exists>e. r = Inl e"
  proof (cases r)
    case (Inr sid)
    from assms(2) have "extendsBy returnedOrMaskLookup (logEvent (AttemptStarted (Suc a)) w) w'"
      unfolding Inr by (rule import_returns)
    then have "list_all returnedOrMaskLookup (since w w')"
      using since_logEvent [of returnedOrMaskLookup "AttemptStarted (Suc a)" w w']
      by (simp add: extendsBy_all)
    with assms(3) have "returnedOrMaskLookup (Remote rc False)"
      unfolding list_all_iff by blast
    with assms(4) show ?thesis by simp
  qed simp
  then show ?thesis
    using assms(1,2) by (subst retryLoop.simps) auto
qed

lemma toLowerCase_a: "toLowerCase ''a.pdf'' = ''a.pdf''"
  by code_simp

lemma valid_a: "validatePDFFile defaultConfig [((''in'', ''a.pdf''), pdfInfo ''%PDF-1.4'')] (''in'', ''a.pdf'')"
  by (simp add: validatePDFFile_def defaultConfig_def pdfInfo_def readHeader_def strEval
        toLowerCase_a toLowerCase_ext)

text \<open>
  Claim C8, as stated, fails at the mask lookup: getMaskId catches every exception and
  returns \<^verbatim>\<open>null\<close> (lines 572 to 575). With the archive unreachable at exactly that
  call, the import of a valid file still returns the record identity \<open>3\<close>.
\<close>

theorem C8_counterexample:
  "fst (importFileToELOWithValidation defaultConfig (''in'', ''a.pdf'') maskDownWorld) = Inr 3
   \<and> since maskDownWorld (snd (importFileToELOWithValidation defaultConfig (''in'', ''a.pdf'') maskDownWorld))
      = [Remote FindFirstSords True, Remote CreateSord True, Remote CheckinSord True,
         Remote CreateSord True, Remote CheckoutDocMasks False, Remote CheckinSord True,
         Remote (CheckinDocBegin 3) True, Remote (Upload 3) True, Remote (CheckinDocEnd 3) True]"
proof -
  have v: "validatePDFFile defaultConfig (fs maskDownWorld) (''in'', ''a.pdf'')"
    using valid_a by (simp add: maskDownWorld_def world0_def)
  show ?thesis
    unfolding importFileToELOWithValidation_def using v
    by (simp add: getOrCreateArchiveFolder_def remote_def getMaskId_def uploadPDFFile_def
          readFileInChunks_def storeSord_def attachDocument_def since_def
          maskDownWorld_def world0_def pdfInfo_def)
qed

section \<open>The compensating delete\<close>

lemma before_upload:
  assumes "getOrCreateArchiveFolder c w = (Inr p, w1)"
      and "remote CreateSord w1 = (True, w2)" and "getMaskId m0 w2 = (m, w3)"
      and "remote CheckinSord w3 = (b4, w4)"
  shows "extendsBy (\<lambda>e. archiveEvent e \<and> notUploadEvent e) w w4"
    and "Remote CheckinSord b4 \<in> set (since w w4)"
    and "sameFiles w w4"
    and "\<exists>pre. since w w4 = pre @ [Remote CheckinSord b4]"
proof -
  let ?P = "\<lambda>e. archiveEvent e \<and> notUploadEvent e"
  have 1: "extendsBy ?P w w1" using getOrCreate_step(2) [OF assms(1)] .
  have 2: "extendsBy ?P w1 w2" using assms(2) by (rule remote_extends) simp
  have 3: "extendsBy ?P w2 w3" using getMaskId_step(4) [OF assms(3)] by (auto elim: extendsBy_mono)
  have 4: "extendsBy ?P w3 w4" using assms(4) by (rule remote_extends) simp
  from 1 2 3 have 13: "extendsBy ?P w w3" by (blast intro: extendsBy_trans)
  from 13 4 show "extendsBy ?P w w4" by (rule extendsBy_trans)
  have "since w w4 = since w w3 @ since w3 w4" using 13 4 by (rule since_trans)
  then have l: "since w w4 = since w w3 @ [Remote CheckinSord b4]"
    using remote_since [OF assms(4)] by simp
  then show "Remote CheckinSord b4 \<in> set (since w w4)" by simp
  from l show "\<exists>pre. since w w4 = pre @ [Remote CheckinSord b4]" by blast
  have "sameFiles w w2"
    using getOrCreate_step(1) [OF assms(1)] remote_step(2) [OF assms(2)]
    by (rule sameFiles_trans)
  moreover have "sameFiles w2 w4"
    using getMaskId_step(1) [OF assms(3)] remote_step(2) [OF assms(4)]
    by (rule sameFiles_trans)
  ultimately show "sameFiles w w4" by (rule sameFiles_trans)
qed

lemma upload_not_before: "uploadEventOf sid e \<Longrightarrow> \<not> notUploadEvent e"
  by (cases e rule: notUploadEvent.cases) auto

lemma no_begin:
  assumes "extendsBy (\<lambda>e. archiveEvent e \<and> notUploadEvent e) w w'"
    and "uploadEventOf sid e"
  shows "e \<notin> set (since w w')"
proof
  assume "e \<in> set (since w w')"
  moreover have "\<forall>x \<in> set (since w w'). notUploadEvent x"
    using extendsBy_all [OF assms(1)] by (simp add: list_all_iff)
  ultimately have "notUploadEvent e" by blast
  with upload_not_before [OF assms(2)] show False by simp
qed

text \<open>
  Claim C3: the content check-in of a record \<open>sid\<close> is begun right after the check-in
  of the draft has returned that identity. When it was begun and the upload fails
  (the content cannot be read, the archive refuses the upload, one of the three calls
  of the content check-in throws, or, for whatever reason, the end of the content
  check-in did not return), the transaction ends in the error "File upload failed" and
  returns no record identity, and its last remote call is the delete of the record
  \<open>sid\<close>: either the delete returned, and no record has that identity any more, or it
  threw, and then the only effect is the log line of the failed clean-up, after which
  the record is still in the archive.
\<close>

theorem C3_compensating_delete:
  assumes "importFileToELOWithValidation c f w = (r, w')"
    and "Remote (CheckinDocBegin sid) b \<in> set (since w w')"
    and "readFileInChunks (fs w) f = None \<or> (\<forall>n. uploadRefused w n)
         \<or> Remote (CheckinDocBegin sid) False \<in> set (since w w')
         \<or> Remote (Upload sid) False \<in> set (since w w')
         \<or> Remote (CheckinDocEnd sid) False \<in> set (since w w')
         \<or> Remote (CheckinDocEnd sid) True \<notin> set (since w w')"
  shows "r = Inl (JsError ''File upload failed'')
       \<and> (\<exists>pre b' post. since w w'
              = pre @ Remote CheckinSord True # Remote (CheckinDocBegin sid) b' # post)
       \<and> Remote (CheckinDocEnd sid) True \<notin> set (since w w')
       \<and> ((\<exists>pre. since w w' = pre @ [Remote (DeleteSord sid) True])
              \<and> sid \<notin> sordId ` set (sords w')
           \<or> (\<exists>pre. since w w' = pre @ [Remote (DeleteSord sid) False, Log (CleanupFailed sid)])
              \<and> sid \<in> sordId ` set (sords w'))"
  using assms(1)
proof (cases rule: import_cases)
  case invalid
  with assms(2) show ?thesis by (simp add: since_def)
next
  case (folder e')
  from no_begin [OF getOrCreate_step(2) [OF folder(2)], of sid "Remote (CheckinDocBegin sid) b"]
    assms(2) show ?thesis by simp
next
  case (create p w1)
  have 1: "extendsBy (\<lambda>e. archiveEvent e \<and> notUploadEvent e) w w1"
    using getOrCreate_step(2) [OF create(2)] .
  have 2: "extendsBy (\<lambda>e. archiveEvent e \<and> notUploadEvent e) w1 w'"
    using create(3) by (rule remote_extends) simp
  from 1 2 have "extendsBy (\<lambda>e. archiveEvent e \<and> notUploadEvent e) w w'"
    by (rule extendsBy_trans)
  from no_begin [OF this, of sid "Remote (CheckinDocBegin sid) b"] assms(2)
  show ?thesis by simp
next
  case (checkin p w1 w2 m w3)
  from no_begin [OF before_upload(1) [OF checkin(2,3,4,5)], of sid "Remote (CheckinDocBegin sid) b"]
    assms(2) show ?thesis by simp
next
  case (success p w1 w2 m w3 w4)
  let ?n = "nextId w4"
  let ?w4 = "storeSord (documentSord f p m ?n) w4"
  note A = before_upload [OF success(2,3,4,5)]
  note O = upload_outcome [OF success(6)]
  have B: "extendsBy (\<lambda>e. archiveEvent e \<and> uploadEventOf ?n e) w4 w'"
    using upload_step(2) [OF success(6)] by simp
  have S: "since w w' = since w w4 @ since w4 w'" using A(1) B by (rule since_trans)
  have up: "\<forall>x \<in> set (since w4 w'). uploadEventOf ?n x"
    using extendsBy_all [OF B] by (simp add: list_all_iff)
  have before: "e \<notin> set (since w w4)" if "uploadEventOf sid e" for e
    using no_begin [OF A(1) that] .
  from assms(2) S before [of "Remote (CheckinDocBegin sid) b"]
  have "Remote (CheckinDocBegin sid) b \<in> set (since w4 w')" by simp
  with up have "uploadEventOf ?n (Remote (CheckinDocBegin sid) b)" by blast
  then have sid: "sid = ?n" by simp
  have same: "fs ?w4 = fs w" "uploadRefused ?w4 = uploadRefused w"
    using A(3) by (simp_all add: sameFiles_def storeSord_def)
  have thrown: "Remote rc False \<notin> set (since w w')" if "uploadEventOf sid (Remote rc False)" for rc
    using S before [OF that] O(4) [of rc] by auto
  have ended: "Remote (CheckinDocEnd sid) True \<in> set (since w w')"
    using O(1) S sid by simp
  have "False"
    using assms(3) O(2,3) same ended
      thrown [of "CheckinDocBegin sid"] thrown [of "Upload sid"] thrown [of "CheckinDocEnd sid"]
    by auto
  then show ?thesis ..
next
  case (rollback p w1 w2 m w3 w4 w5 ok w6)
  let ?n = "nextId w4"
  let ?w4 = "storeSord (documentSord f p m ?n) w4"
  let ?tail = "Remote (DeleteSord ?n) ok # (if ok then [] else [Log (CleanupFailed ?n)])"
  note A = before_upload [OF rollback(2,3,4,5)]
  note O = upload_outcome [OF rollback(6)]
  have B: "extendsBy (\<lambda>e. archiveEvent e \<and> uploadEventOf ?n e) w4 w5"
    using upload_step(2) [OF rollback(6)] by simp
  have T6: "trace w6 = trace w5 @ [Remote (DeleteSord ?n) ok]"
    using rollback(7) by (rule remote_step(1))
  have T': "trace w' = trace w6 @ (if ok then [] else [Log (CleanupFailed ?n)])"
    using rollback(8) by simp
  have "trace w' = trace w @ (since w w4 @ since w4 w5 @ ?tail)"
    using extendsBy_trace [OF A(1)] extendsBy_trace [OF B] T6 T' by simp
  then have S: "since w w' = since w w4 @ since w4 w5 @ ?tail" by (rule since_append)
  have up: "\<forall>x \<in> set (since w4 w5). uploadEventOf ?n x"
    using extendsBy_all [OF B] by (simp add: list_all_iff)
  have before: "e \<notin> set (since w w4)" if "uploadEventOf sid e" for e
    using no_begin [OF A(1) that] .
  from assms(2) S before [of "Remote (CheckinDocBegin sid) b"]
  have "Remote (CheckinDocBegin sid) b \<in> set (since w4 w5)"
    by (auto split: if_splits)
  with up have "uploadEventOf ?n (Remote (CheckinDocBegin sid) b)" by blast
  then have sid: "sid = ?n" by simp
  have e: "r = Inl (JsError ''File upload failed'')" by (rule rollback(9))
  from A(4) obtain pre where pre: "since w w4 = pre @ [Remote CheckinSord True]" by blast
  from O(6) obtain b' rest where
    rest: "since w4 w5 = Remote (CheckinDocBegin ?n) b' # rest" by auto
  have ci: "\<exists>pre b' post. since w w'
              = pre @ Remote CheckinSord True # Remote (CheckinDocBegin sid) b' # post"
    using S pre rest sid
    by (intro exI [of _ pre] exI [of _ b'] exI [of _ "rest @ ?tail"]) simp
  have ne: "Remote (CheckinDocEnd sid) True \<notin> set (since w w')"
    using S before [of "Remote (CheckinDocEnd sid) True"] O(1) sid
    by (auto split: if_splits)
  have kept: "sords w6 = sords ?w4"
    using O(5) rollback(7) by (auto simp: remote_def)
  show ?thesis
  proof (cases ok)
    case True
    then have "since w w' = (since w w4 @ since w4 w5) @ [Remote (DeleteSord sid) True]"
      using S sid by simp
    moreover have "sid \<notin> sordId ` set (sords w')"
      using True rollback(8) sid by (auto simp: removeSord_def)
    ultimately show ?thesis using e ci ne by blast
  next
    case False
    then have "since w w' = (since w w4 @ since w4 w5)
        @ [Remote (DeleteSord sid) False, Log (CleanupFailed sid)]"
      using S sid by simp
    moreover have "sid \<in> sordId ` set (sords w')"
      using False rollback(8) sid kept by (simp add: storeSord_def logEvent_def documentSord_def)
    ultimately show ?thesis using e ci ne by blast
  qed
qed

lemma upload_fails_run:
  "fst (importFileToELOWithValidation defaultConfig (''in'', ''a.pdf'') uploadFailsWorld)
     = Inl (JsError ''File upload failed'')
   \<and> since uploadFailsWorld
        (snd (importFileToELOWithValidation defaultConfig (''in'', ''a.pdf'') uploadFailsWorld))
     = [Remote FindFirstSords True, Remote CreateSord True, Remote CheckinSord True,
        Remote CreateSord True, Remote CheckoutDocMasks True, Remote CheckinSord True,
        Remote (CheckinDocBegin 3) True, Remote (Upload 3) True,
        Remote (DeleteSord 3) False, Log (CleanupFailed 3)]"
proof -
  have v: "validatePDFFile defaultConfig (fs uploadFailsWorld) (''in'', ''a.pdf'')"
    using valid_a by (simp add: uploadFailsWorld_def world0_def)
  show ?thesis
    unfolding importFileToELOWithValidation_def using v
    by (simp add: getOrCreateArchiveFolder_def remote_def getMaskId_def uploadPDFFile_def
          readFileInChunks_def storeSord_def removeSord_def logEvent_def since_def
          uploadFailsWorld_def world0_def pdfInfo_def)
qed

text \<open>
  The theorem of C3 where the upload returns a false value and the delete throws.
\<close>

theorem C3_compensating_delete_witness:
  "uploadRefused uploadFailsWorld = (\<lambda>n. True)
   \<and> Remote (CheckinDocBegin 3) True
       \<in> set (since uploadFailsWorld
                (snd (importFileToELOWithValidation defaultConfig (''in'', ''a.pdf'') uploadFailsWorld)))
   \<and> fst (importFileToELOWithValidation defaultConfig (''in'', ''a.pdf'') uploadFailsWorld)
       = Inl (JsError ''File upload failed'')
   \<and> Remote CheckinSord True
       \<in> set (since uploadFailsWorld
                (snd (importFileToELOWithValidation defaultConfig (''in'', ''a.pdf'') uploadFailsWorld)))
   \<and> Remote (CheckinDocEnd 3) True
       \<notin> set (since uploadFailsWorld
                (snd (importFileToELOWithValidation defaultConfig (''in'', ''a.pdf'') uploadFailsWorld)))
   \<and> last (since uploadFailsWorld
             (snd (importFileToELOWithValidation defaultConfig (''in'', ''a.pdf'') uploadFailsWorld)))
       = Log (CleanupFailed 3)"
proof -
  let ?i = "importFileToELOWithValidation defaultConfig (''in'', ''a.pdf'') uploadFailsWorld"
  have r: "?i = (fst ?i, snd ?i)" by simp
  have b: "Remote (CheckinDocBegin 3) True \<in> set (since uploadFailsWorld (snd ?i))"
    using upload_fails_run by simp
  have u: "\<forall>n. uploadRefused uploadFailsWorld n"
    by (simp add: uploadFailsWorld_def)
  have l: "last (since uploadFailsWorld (snd ?i)) = Log (CleanupFailed 3)"
    using upload_fails_run by simp
  from u have "readFileInChunks (fs uploadFailsWorld) (''in'', ''a.pdf'') = None
         \<or> (\<forall>n. uploadRefused uploadFailsWorld n)
         \<or> Remote (CheckinDocBegin 3) False \<in> set (since uploadFailsWorld (snd ?i))
         \<or> Remote (Upload 3) False \<in> set (since uploadFailsWorld (snd ?i))
         \<or> Remote (CheckinDocEnd 3) False \<in> set (since uploadFailsWorld (snd ?i))
         \<or> Remote (CheckinDocEnd 3) True \<notin> set (since uploadFailsWorld (snd ?i))"
    by blast
  note inst = C3_compensating_delete [OF r b this]
  from inst have e: "fst ?i = Inl (JsError ''File upload failed'')"
    and n: "Remote (CheckinDocEnd 3) True \<notin> set (since uploadFailsWorld (snd ?i))"
    by blast+
  from inst obtain pre b' post where
    "since uploadFailsWorld (snd ?i)
       = pre @ Remote CheckinSord True # Remote (CheckinDocBegin 3) b' # post"
    by blast
  then have c: "Remote CheckinSord True \<in> set (since uploadFailsWorld (snd ?i))" by simp
  from e n c b l show ?thesis by (simp add: uploadFailsWorld_def)
qed

section \<open>The workflow trigger\<close>

lemma sleep_simps [simp]:
  "trace (sleep ms w) = trace w @ [Sleep ms]" "sameFiles w0 (sleep ms w) = sameFiles w0 w"
  "sameFiles (sleep ms w) w' = sameFiles w w'"
  "sords (sleep ms w) = sords w" "fs (sleep ms w) = fs w" "clock (sleep ms w) = clock w"
  "nextId (sleep ms w) = nextId w"
  by (simp_all add: sleep_def sameFiles_def)

lemma workflowAttempt_step:
  assumes "startWorkflowAttempt c sid w = (r, w')"
  shows "sameFiles w w'" and "extendsBy workflowEvent w w'" and "sords w' = sords w"
  using assms
  by (auto simp: startWorkflowAttempt_def remote_def sameFiles_def extendsBy_def since_def
           split: bool.splits if_splits)

lemma workflow_cases [consumes 1, case_names first second failed]:
  assumes "startWorkflowWithRetry c sid w = (r, w')"
  obtains "startWorkflowAttempt c sid w = (None, w')" and "r = None"
  | e w1 where "startWorkflowAttempt c sid w = (Some e, w1)"
      and "startWorkflowAttempt c sid (sleep 2000 w1) = (None, w')" and "r = None"
  | e w1 e' where "startWorkflowAttempt c sid w = (Some e, w1)"
      and "startWorkflowAttempt c sid (sleep 2000 w1) = (Some e', w')" and "r = Some e'"
proof -
  obtain r1 w1 where a1: "startWorkflowAttempt c sid w = (r1, w1)" by fastforce
  show ?thesis
  proof (cases r1)
    case None
    with assms a1 show ?thesis
      by (intro that(1)) (simp_all add: startWorkflowWithRetry_def startWorkflowLoop.simps [of c sid 0] maxAttempts_def)
  next
    case (Some e)
    obtain r2 w2 where a2: "startWorkflowAttempt c sid (sleep 2000 w1) = (r2, w2)" by fastforce
    from assms a1 Some a2 have res: "(r, w') = (r2, w2)"
      by (simp add: startWorkflowWithRetry_def startWorkflowLoop.simps [of c sid 0]
            startWorkflowLoop.simps [of c sid "Suc 0"] maxAttempts_def split: option.splits)
    show ?thesis
    proof (cases r2)
      case None
      with a1 Some a2 res show ?thesis by (intro that(2) [of e w1]) simp_all
    next
      case (Some e')
      with a1 \<open>r1 = Some e\<close> a2 res show ?thesis by (intro that(3) [of e w1 e']) simp_all
    qed
  qed
qed

lemma workflow_step:
  assumes "startWorkflowWithRetry c sid w = (r, w')"
  shows "sameFiles w w'" and "extendsBy workflowEvent w w'" and "sords w' = sords w"
proof -
  have "sameFiles w w' \<and> extendsBy workflowEvent w w' \<and> sords w' = sords w"
    using assms
  proof (cases rule: workflow_cases)
    case first
    then show ?thesis using workflowAttempt_step [of c sid w None w'] by simp
  next
    case (second e w1)
    have s: "extendsBy workflowEvent w1 (sleep 2000 w1)"
      by (rule extendsByI [of _ _ "[Sleep 2000]"]) simp_all
    have "sameFiles w w'"
      using workflowAttempt_step(1) [OF second(1)] workflowAttempt_step(1) [OF second(2), simplified]
      by (rule sameFiles_trans)
    moreover have "extendsBy workflowEvent w w'"
      using workflowAttempt_step(2) [OF second(1)] s workflowAttempt_step(2) [OF second(2)]
      by (blast intro: extendsBy_trans)
    moreover have "sords w' = sords w"
      using workflowAttempt_step(3) [OF second(1)] workflowAttempt_step(3) [OF second(2)] by simp
    ultimately show ?thesis by simp
  next
    case (failed e w1 e')
    have s: "extendsBy workflowEvent w1 (sleep 2000 w1)"
      by (rule extendsByI [of _ _ "[Sleep 2000]"]) simp_all
    have "sameFiles w w'"
      using workflowAttempt_step(1) [OF failed(1)] workflowAttempt_step(1) [OF failed(2), simplified]
      by (rule sameFiles_trans)
    moreover have "extendsBy workflowEvent w w'"
      using workflowAttempt_step(2) [OF failed(1)] s workflowAttempt_step(2) [OF failed(2)]
      by (blast intro: extendsBy_trans)
    moreover have "sords w' = sords w"
      using workflowAttempt_step(3) [OF failed(1)] workflowAttempt_step(3) [OF failed(2)] by simp
    ultimately show ?thesis by simp
  qed
  then show "sameFiles w w'" and "extendsBy workflowEvent w w'" and "sords w' = sords w"
    by simp_all
qed

section \<open>The retry loop\<close>

lemma moveFile_frame [simp]:
  "totalProcessed (moveFile f d w) = totalProcessed w"
  "totalErrors (moveFile f d w) = totalErrors w"
  "sords (moveFile f d w) = sords w" "clock (moveFile f d w) = clock w"
  "nextId (moveFile f d w) = nextId w"
  by (simp_all add: moveFile_def renameTo_def split: option.splits)

lemma moveFile_step:
  "\<exists>tgt ok. trace (moveFile f d w) = trace w @ [Rename f (d, tgt) ok]
     \<and> (ok \<longleftrightarrow> fexists (fs w) f \<and> dirExists w d \<and> \<not> renameDenied w f (d, tgt)
                \<and> (fexists (fs w) (d, tgt) \<longrightarrow> renameReplaces w))
     \<and> (\<not> fexists (fs w) (d, getName f) \<longrightarrow> tgt = getName f)
     \<and> (ok \<longrightarrow> map_of (fs (moveFile f d w)) (d, tgt) = map_of (fs w) f
             \<and> ((d, tgt) \<noteq> f \<longrightarrow> map_of (fs (moveFile f d w)) f = None))
     \<and> (\<not> ok \<longrightarrow> fs (moveFile f d w) = fs w)"
proof -
  obtain tgt where t: "targetFile f d w = (d, tgt)"
    using targetFile_fst [of f d w] by (cases "targetFile f d w") simp
  have plain: "\<not> fexists (fs w) (d, getName f) \<longrightarrow> tgt = getName f"
    using t by (simp add: targetFile_def split: if_splits)
  show ?thesis
  proof (cases "map_of (fs w) f")
    case None
    with plain show ?thesis
      by (intro exI [of _ tgt] exI [of _ False])
         (simp add: moveFile_def renameTo_def t fexists_def)
  next
    case (Some info)
    show ?thesis
    proof (cases "\<not> dirExists w d \<or> renameDenied w f (d, tgt)
                 \<or> (fexists (fs w) (d, tgt) \<and> \<not> renameReplaces w)")
      case True
      with Some plain show ?thesis
        by (intro exI [of _ tgt] exI [of _ False])
           (auto simp: moveFile_def renameTo_def t)
    next
      case False
      with Some plain show ?thesis
        by (intro exI [of _ tgt] exI [of _ True])
           (auto simp: moveFile_def renameTo_def t fexists_def
              map_of_filter_fst [where P = "\<lambda>k. k \<noteq> f \<and> k \<noteq> (d, tgt)"])
    qed
  qed
qed

lemma moveFile_extends:
  assumes "\<And>s t ok. P (Rename s t ok)"
  shows "extendsBy P w (moveFile f d w)"
proof -
  obtain tgt ok where "trace (moveFile f d w) = trace w @ [Rename f (d, tgt) ok]"
    using moveFile_step [of f d w] by blast
  moreover have "list_all P [Rename f (d, tgt) ok]" by (simp add: assms)
  ultimately show ?thesis by (rule extendsByI)
qed

text \<open>
  The move at the end of a run whose earlier steps left the files alone: where the file
  ends up, in terms of the world the run started from.
\<close>

lemma moveFile_outcome:
  assumes "sameFiles w wl" and "w' = moveFile f d wl"
  shows "\<exists>tgt ok. last (trace w') = Rename f (d, tgt) ok
     \<and> (ok \<longleftrightarrow> fexists (fs w) f \<and> dirExists w d \<and> \<not> renameDenied w f (d, tgt)
                \<and> (fexists (fs w) (d, tgt) \<longrightarrow> renameReplaces w))
     \<and> (\<not> fexists (fs w) (d, getName f) \<longrightarrow> tgt = getName f)
     \<and> (ok \<longrightarrow> map_of (fs w') (d, tgt) = map_of (fs w) f
             \<and> ((d, tgt) \<noteq> f \<longrightarrow> map_of (fs w') f = None))
     \<and> (\<not> ok \<longrightarrow> fs w' = fs w)"
proof -
  have same: "fs wl = fs w" "renameDenied wl = renameDenied w"
    "renameReplaces wl = renameReplaces w" "dirExists wl d = dirExists w d"
    using assms(1) by (simp_all add: sameFiles_def dirExists_def)
  from moveFile_step [of f d wl] obtain tgt ok where
    m: "trace (moveFile f d wl) = trace wl @ [Rename f (d, tgt) ok]"
       "ok \<longleftrightarrow> fexists (fs wl) f \<and> dirExists wl d \<and> \<not> renameDenied wl f (d, tgt)
                \<and> (fexists (fs wl) (d, tgt) \<longrightarrow> renameReplaces wl)"
       "\<not> fexists (fs wl) (d, getName f) \<longrightarrow> tgt = getName f"
       "ok \<longrightarrow> map_of (fs (moveFile f d wl)) (d, tgt) = map_of (fs wl) f
             \<and> ((d, tgt) \<noteq> f \<longrightarrow> map_of (fs (moveFile f d wl)) f = None)"
       "\<not> ok \<longrightarrow> fs (moveFile f d wl) = fs wl"
    by blast
  have l: "last (trace w') = Rename f (d, tgt) ok" using m(1) by (simp add: assms(2))
  show ?thesis
    using l m(2-5) unfolding same assms(2)
    by (intro exI [of _ tgt] exI [of _ ok]) blast
qed

lemma onAttemptFailure_simps [simp]:
  "sameFiles w0 (onAttemptFailure c k w) = sameFiles w0 w"
  "sameFiles (onAttemptFailure c k w) w' = sameFiles w w'"
  "sords (onAttemptFailure c k w) = sords w" "fs (onAttemptFailure c k w) = fs w"
  "clock (onAttemptFailure c k w) = clock w" "nextId (onAttemptFailure c k w) = nextId w"
  "totalProcessed (onAttemptFailure c k w) = totalProcessed w"
  "totalErrors (onAttemptFailure c k w) = totalErrors w"
  by (simp_all add: onAttemptFailure_def sameFiles_def sleep_def logEvent_def)

lemma onAttemptFailure_trace:
  "trace (onAttemptFailure c k w) = trace w @
     (if k < RETRY_ATTEMPTS c then [Log (AttemptFailed k), Sleep (2 ^ k * 1000)]
      else [Log (AttemptFailed k)])"
  by (simp add: onAttemptFailure_def)

lemma retry_cases [consumes 1, case_names exhausted success retry]:
  assumes "retryLoop c f a w = (r, w')"
  obtains "\<not> a < RETRY_ATTEMPTS c" and "r = False"
      and "w' = moveFileToErrorDir c f (logEvent AllAttemptsFailed w)"
  | sid w1 wf w2 where "a < RETRY_ATTEMPTS c"
      and "importFileToELOWithValidation c f (logEvent (AttemptStarted (Suc a)) w) = (Inr sid, w1)"
      and "sid \<noteq> 0" and "startWorkflowWithRetry c sid w1 = (wf, w2)" and "r = True"
      and "w' = moveFileToProcessedDir c f
                  (case wf of None \<Rightarrow> w2 | Some e \<Rightarrow> logEvent (WorkflowStartFailed sid) w2)"
  | res w1 where "a < RETRY_ATTEMPTS c"
      and "importFileToELOWithValidation c f (logEvent (AttemptStarted (Suc a)) w) = (res, w1)"
      and "res = Inr 0 \<or> (\<exists>e. res = Inl e)"
      and "retryLoop c f (Suc a) (onAttemptFailure c (Suc a) w1) = (r, w')"
proof (cases "a < RETRY_ATTEMPTS c")
  case False
  with assms show ?thesis
    by (intro that(1)) (simp_all add: retryLoop.simps [of c f a w])
next
  case lt: True
  obtain res w1 where i: "importFileToELOWithValidation c f (logEvent (AttemptStarted (Suc a)) w) = (res, w1)"
    by fastforce
  show ?thesis
  proof (cases "\<exists>sid. res = Inr sid \<and> sid \<noteq> 0")
    case True
    then obtain sid where s: "res = Inr sid" "sid \<noteq> 0" by blast
    obtain wf w2 where wf: "startWorkflowWithRetry c sid w1 = (wf, w2)" by fastforce
    from assms lt i s wf show ?thesis
      by (intro that(2) [of sid w1 wf w2])
         (auto simp: retryLoop.simps [of c f a w] split: option.splits)
  next
    case False
    then have "res = Inr 0 \<or> (\<exists>e. res = Inl e)" by (cases res) auto
    with assms lt i show ?thesis
      by (intro that(3) [of res w1]) (auto simp: retryLoop.simps [of c f a w])
  qed
qed

lemma archive_not_statistics: "archiveEvent e \<Longrightarrow> \<not> isStatistics e"
  by (cases e rule: isStatistics.cases) auto

lemma workflow_not_statistics: "workflowEvent e \<Longrightarrow> \<not> isStatistics e"
  by (cases e rule: isStatistics.cases) auto

lemma archive_not_retry: "archiveEvent e \<Longrightarrow> \<not> retryEvent e"
  by (cases e rule: retryEvent.cases) auto

lemma logEvent_extends: "P (Log l) \<Longrightarrow> extendsBy P w (logEvent l w)"
  by (rule extendsByI [of _ _ "[Log l]"]) simp_all

lemma onAttemptFailure_extends:
  "(\<And>k. P (Log (AttemptFailed k))) \<Longrightarrow> (\<And>ms. P (Sleep ms)) \<Longrightarrow>
   extendsBy P w (onAttemptFailure c k w)"
  by (rule extendsByI [OF onAttemptFailure_trace]) simp

lemma sameFiles_totals:
  "sameFiles w w' \<Longrightarrow> totalProcessed w' = totalProcessed w \<and> totalErrors w' = totalErrors w"
  by (simp add: sameFiles_def)

lemma retry_effects:
  assumes "retryLoop c f a w = (r, w')"
  shows "totalProcessed w' = totalProcessed w \<and> totalErrors w' = totalErrors w
       \<and> extendsBy (\<lambda>e. \<not> isStatistics e) w w'"
  using assms
proof (induction "RETRY_ATTEMPTS c - a" arbitrary: a w)
  case 0
  from "0.prems" show ?case
  proof (cases rule: retry_cases)
    case exhausted
    have "extendsBy (\<lambda>e. \<not> isStatistics e) w (logEvent AllAttemptsFailed w)"
      by (rule logEvent_extends) simp
    moreover have "extendsBy (\<lambda>e. \<not> isStatistics e) (logEvent AllAttemptsFailed w) w'"
      unfolding exhausted(3) moveFileToErrorDir_def by (rule moveFile_extends) simp
    ultimately have "extendsBy (\<lambda>e. \<not> isStatistics e) w w'" by (rule extendsBy_trans)
    then show ?thesis by (simp add: exhausted(3) moveFileToErrorDir_def logEvent_def)
  next
    case (success sid w1 wf w2)
    with "0.hyps" show ?thesis by simp
  next
    case (retry res w1)
    with "0.hyps" show ?thesis by simp
  qed
next
  case (Suc n)
  let ?w0 = "logEvent (AttemptStarted (Suc a)) w"
  have e0: "extendsBy (\<lambda>e. \<not> isStatistics e) w ?w0"
    by (rule logEvent_extends) simp
  from Suc.prems show ?case
  proof (cases rule: retry_cases)
    case exhausted
    with Suc.hyps(2) show ?thesis by simp
  next
    case (success sid w1 wf w2)
    let ?wx = "case wf of None \<Rightarrow> w2 | Some e \<Rightarrow> logEvent (WorkflowStartFailed sid) w2"
    have e1: "extendsBy (\<lambda>e. \<not> isStatistics e) ?w0 w1"
      using import_effects(2) [OF success(2)] archive_not_statistics
      by (rule extendsBy_mono)
    have e2: "extendsBy (\<lambda>e. \<not> isStatistics e) w1 w2"
      using workflow_step(2) [OF success(4)] workflow_not_statistics
      by (rule extendsBy_mono)
    have e3: "extendsBy (\<lambda>e. \<not> isStatistics e) w2 ?wx"
      by (cases wf) (simp_all add: extendsBy_refl logEvent_extends)
    have e4: "extendsBy (\<lambda>e. \<not> isStatistics e) ?wx w'"
      unfolding success(6) moveFileToProcessedDir_def by (rule moveFile_extends) simp
    from e0 e1 e2 e3 e4 have "extendsBy (\<lambda>e. \<not> isStatistics e) w w'"
      by (blast intro: extendsBy_trans)
    moreover have "totalProcessed ?wx = totalProcessed w \<and> totalErrors ?wx = totalErrors w"
      using sameFiles_totals [OF import_effects(1) [OF success(2)]]
        sameFiles_totals [OF workflow_step(1) [OF success(4)]]
      by (cases wf) (simp_all add: logEvent_def)
    ultimately show ?thesis by (simp add: success(6) moveFileToProcessedDir_def)
  next
    case (retry res w1)
    let ?w2 = "onAttemptFailure c (Suc a) w1"
    have e1: "extendsBy (\<lambda>e. \<not> isStatistics e) ?w0 w1"
      using import_effects(2) [OF retry(2)] archive_not_statistics
      by (rule extendsBy_mono)
    have e2: "extendsBy (\<lambda>e. \<not> isStatistics e) w1 ?w2"
      by (rule onAttemptFailure_extends) simp_all
    have "n = RETRY_ATTEMPTS c - Suc a" using Suc.hyps(2) by simp
    from Suc.hyps(1) [OF this retry(4)]
    have ih: "totalProcessed w' = totalProcessed ?w2" "totalErrors w' = totalErrors ?w2"
      "extendsBy (\<lambda>e. \<not> isStatistics e) ?w2 w'" by simp_all
    from e0 e1 e2 ih(3) have "extendsBy (\<lambda>e. \<not> isStatistics e) w w'"
      by (blast intro: extendsBy_trans)
    moreover have "totalProcessed w1 = totalProcessed w \<and> totalErrors w1 = totalErrors w"
      using sameFiles_totals [OF import_effects(1) [OF retry(2)]] by (simp add: logEvent_def)
    ultimately show ?thesis using ih(1,2) by simp
  qed
qed

lemma backoffTrace_done: "\<not> a < R \<Longrightarrow> backoffTrace R a = []"
  by (simp add: backoffTrace_def)

lemma backoffTrace_step:
  "a < R \<Longrightarrow> backoffTrace R a =
     (if Suc a < R then [Log (AttemptFailed (Suc a)), Sleep (2 ^ Suc a * 1000)]
      else [Log (AttemptFailed (Suc a))]) @ backoffTrace R (Suc a)"
  by (simp add: backoffTrace_def upt_conv_Cons)

lemma filter_archive_retry:
  assumes "extendsBy archiveEvent w w'"
  shows "filter retryEvent (since w w') = []"
  using extendsBy_all [OF assms] archive_not_retry
  by (auto simp: filter_empty_conv list_all_iff)

lemma retry_failed:
  assumes "retryLoop c f a w = (False, w')"
  shows "filter retryEvent (since w w') = backoffTrace (RETRY_ATTEMPTS c) a
       \<and> (\<exists>w1. w' = moveFileToErrorDir c f w1 \<and> sameFiles w w1)"
  using assms
proof (induction "RETRY_ATTEMPTS c - a" arbitrary: a w)
  case 0
  from "0.prems" show ?case
  proof (cases rule: retry_cases)
    case exhausted
    obtain tgt ok where "trace w' = trace (logEvent AllAttemptsFailed w) @ [Rename f (ERROR_DIR c, tgt) ok]"
      using moveFile_step [of f "ERROR_DIR c" "logEvent AllAttemptsFailed w"]
      unfolding exhausted(3) moveFileToErrorDir_def by blast
    then have "trace w' = trace w @ [Log AllAttemptsFailed, Rename f (ERROR_DIR c, tgt) ok]"
      by simp
    then have "since w w' = [Log AllAttemptsFailed, Rename f (ERROR_DIR c, tgt) ok]"
      by (rule since_append)
    then have "filter retryEvent (since w w') = backoffTrace (RETRY_ATTEMPTS c) a"
      using exhausted(1) by (simp add: backoffTrace_done)
    moreover have "\<exists>w1. w' = moveFileToErrorDir c f w1 \<and> sameFiles w w1"
      using exhausted(3) by (intro exI [of _ "logEvent AllAttemptsFailed w"]) (simp add: sameFiles_refl)
    ultimately show ?thesis by simp
  next
    case (success sid w1 wf w2)
    then show ?thesis by simp
  next
    case (retry res w1)
    with "0.hyps" show ?thesis by simp
  qed
next
  case (Suc n)
  let ?R = "RETRY_ATTEMPTS c"
  let ?w0 = "logEvent (AttemptStarted (Suc a)) w"
  from Suc.prems show ?case
  proof (cases rule: retry_cases)
    case exhausted
    with Suc.hyps(2) show ?thesis by simp
  next
    case (success sid w1 wf w2)
    then show ?thesis by simp
  next
    case (retry res w1)
    let ?w2 = "onAttemptFailure c (Suc a) w1"
    let ?fail = "if Suc a < ?R then [Log (AttemptFailed (Suc a)), Sleep (2 ^ Suc a * 1000)]
                 else [Log (AttemptFailed (Suc a))]"
    have n: "n = ?R - Suc a" using Suc.hyps(2) by simp
    from Suc.hyps(1) [OF n retry(4)] obtain wl where
      ih: "filter retryEvent (since ?w2 w') = backoffTrace ?R (Suc a)"
        "w' = moveFileToErrorDir c f wl" "sameFiles ?w2 wl"
      by blast
    have i1: "extendsBy archiveEvent ?w0 w1" using import_effects(2) [OF retry(2)] .
    have t1: "trace w1 = trace w @ (Log (AttemptStarted (Suc a)) # since ?w0 w1)"
      using extendsBy_trace [OF i1] by simp
    have t2: "trace ?w2 = trace w1 @ ?fail" by (rule onAttemptFailure_trace)
    have "extendsBy (\<lambda>e. \<not> isStatistics e) ?w2 w'"
      using retry_effects [OF retry(4)] by simp
    then have t3: "trace w' = trace ?w2 @ since ?w2 w'" by (rule extendsBy_trace)
    have "trace w' = trace w @ (Log (AttemptStarted (Suc a)) # since ?w0 w1 @ ?fail @ since ?w2 w')"
      using t1 t2 t3 by simp
    then have "since w w' = Log (AttemptStarted (Suc a)) # since ?w0 w1 @ ?fail @ since ?w2 w'"
      by (rule since_append)
    then have "filter retryEvent (since w w') = ?fail @ backoffTrace ?R (Suc a)"
      using filter_archive_retry [OF i1] ih(1) by simp
    then have "filter retryEvent (since w w') = backoffTrace ?R a"
      using retry(1) by (simp add: backoffTrace_step)
    moreover have "sameFiles w wl"
      using import_effects(1) [OF retry(2), simplified] ih(3) [simplified]
      by (rule sameFiles_trans)
    ultimately show ?thesis using ih(2) by blast
  qed
qed

lemma retry_invalid:
  assumes "\<not> validatePDFFile c (fs w) f"
  shows "\<exists>w'. retryLoop c f a w = (False, w') \<and> sords w' = sords w
       \<and> clock w' = clock w \<and> nextId w' = nextId w"
  using assms
proof (induction "RETRY_ATTEMPTS c - a" arbitrary: a w)
  case 0
  then show ?case
    by (simp add: retryLoop.simps [of c f a w] moveFileToErrorDir_def)
next
  case (Suc n)
  let ?w0 = "logEvent (AttemptStarted (Suc a)) w"
  let ?w2 = "onAttemptFailure c (Suc a) ?w0"
  have lt: "a < RETRY_ATTEMPTS c" and n: "n = RETRY_ATTEMPTS c - Suc a"
    using Suc.hyps(2) by simp_all
  have i: "importFileToELOWithValidation c f ?w0 = (Inl (JsError ''File validation failed''), ?w0)"
    using Suc.prems by (simp add: importFileToELOWithValidation_def)
  have "\<not> validatePDFFile c (fs ?w2) f" using Suc.prems by simp
  from Suc.hyps(1) [OF n this] obtain w' where
    "retryLoop c f (Suc a) ?w2 = (False, w')" "sords w' = sords ?w2"
    "clock w' = clock ?w2" "nextId w' = nextId ?w2" by blast
  then show ?case
    using lt i by (simp add: retryLoop.simps [of c f a w])
qed

lemma retryEvent_sleeps: "sleepsOf (filter retryEvent es) = sleepsOf es"
  by (induction es rule: sleepsOf.induct) (auto split: event.splits logline.splits)

lemma sleepsOf_append [simp]: "sleepsOf (xs @ ys) = sleepsOf xs @ sleepsOf ys"
  by (induction xs) (auto split: event.splits)

lemma sleepsOf_backoffTrace:
  "sleepsOf (backoffTrace R a) = map (\<lambda>k. 2 ^ k * 1000) [Suc a..<R]"
proof (induction "R - a" arbitrary: a)
  case 0
  then show ?case by (simp add: backoffTrace_done)
next
  case (Suc n)
  then have lt: "a < R" and n: "n = R - Suc a" by simp_all
  show ?case
  proof (cases "Suc a < R")
    case True
    then show ?thesis
      using Suc.hyps(1) [OF n] lt by (simp add: backoffTrace_step upt_conv_Cons)
  next
    case False
    then show ?thesis
      using Suc.hyps(1) [OF n] lt by (simp add: backoffTrace_step)
  qed
qed

lemma sum_backoff:
  "sum_list (map (\<lambda>k. 2 ^ k * 1000) [a..<R]) = 1000 * (\<Sum>k = a..<R. 2 ^ k :: nat)"
proof -
  have "sum_list (map (\<lambda>k. 2 ^ k * 1000) [a..<R]) = (\<Sum>k = a..<R. 2 ^ k * 1000 :: nat)"
    by (simp add: interv_sum_list_conv_sum_set_nat)
  also have "\<dots> = 1000 * (\<Sum>k = a..<R. 2 ^ k)"
    by (simp add: sum_distrib_right [symmetric] mult.commute)
  finally show ?thesis .
qed

section \<open>Backoff, and validation in every attempt\<close>

text \<open>
  Claim C2, with the second as time unit (the sleeps are in milliseconds): when attempt
  \<open>a + 1\<close> fails, the loop continues with the next iteration after the failure
  handling, whose events are the log line and, while attempts remain, one sleep of
  \<open>2 ^ (a + 1) * 1000\<close> milliseconds, and no sleep after the last attempt. A file
  that fails all \<open>R\<close> attempts leaves exactly the failures \<open>1\<close> to \<open>R\<close>, each but the
  last followed by its sleep; the sleeps are \<open>2 ^ k * 1000\<close> for \<open>k\<close> from \<open>1\<close> to
  \<open>R - 1\<close> and sum up to \<open>1000\<close> times the sum of the \<open>2 ^ k\<close>.
\<close>

theorem C2_backoff:
  "(a < RETRY_ATTEMPTS c
      \<and> importFileToELOWithValidation c f (logEvent (AttemptStarted (Suc a)) w) = (res, w1)
      \<and> (res = Inr 0 \<or> (\<exists>e. res = Inl e)) \<longrightarrow>
        retryLoop c f a w = retryLoop c f (Suc a) (onAttemptFailure c (Suc a) w1)
      \<and> since w1 (onAttemptFailure c (Suc a) w1)
          = (if Suc a < RETRY_ATTEMPTS c
             then [Log (AttemptFailed (Suc a)), Sleep (2 ^ Suc a * 1000)]
             else [Log (AttemptFailed (Suc a))]))
   \<and> (processSinglePDFWithRetry c f w = (False, w') \<longrightarrow>
        filter retryEvent (since w w') = backoffTrace (RETRY_ATTEMPTS c) 0
      \<and> sleepsOf (since w w') = map (\<lambda>k. 2 ^ k * 1000) [1..<RETRY_ATTEMPTS c]
      \<and> sum_list (sleepsOf (since w w')) = 1000 * (\<Sum>k = 1..<RETRY_ATTEMPTS c. 2 ^ k))"
proof (intro conjI impI)
  assume h: "a < RETRY_ATTEMPTS c
      \<and> importFileToELOWithValidation c f (logEvent (AttemptStarted (Suc a)) w) = (res, w1)
      \<and> (res = Inr 0 \<or> (\<exists>e. res = Inl e))"
  then show "retryLoop c f a w = retryLoop c f (Suc a) (onAttemptFailure c (Suc a) w1)"
    by (subst retryLoop.simps) auto
  show "since w1 (onAttemptFailure c (Suc a) w1)
          = (if Suc a < RETRY_ATTEMPTS c
             then [Log (AttemptFailed (Suc a)), Sleep (2 ^ Suc a * 1000)]
             else [Log (AttemptFailed (Suc a))])"
    using onAttemptFailure_trace [of c "Suc a" w1] by (rule since_append)
next
  assume "processSinglePDFWithRetry c f w = (False, w')"
  then have r: "retryLoop c f 0 w = (False, w')" by (simp add: processSinglePDFWithRetry_def)
  show v: "filter retryEvent (since w w') = backoffTrace (RETRY_ATTEMPTS c) 0"
    using retry_failed [OF r] by simp
  have "sleepsOf (since w w') = sleepsOf (filter retryEvent (since w w'))"
    by (simp add: retryEvent_sleeps)
  then show s: "sleepsOf (since w w') = map (\<lambda>k. 2 ^ k * 1000) [1..<RETRY_ATTEMPTS c]"
    by (simp add: v sleepsOf_backoffTrace)
  show "sum_list (sleepsOf (since w w')) = 1000 * (\<Sum>k = 1..<RETRY_ATTEMPTS c. 2 ^ k)"
    unfolding s by (rule sum_backoff)
qed

lemma run_invalid:
  assumes "\<not> validatePDFFile c (fs w) f"
  shows "\<exists>w'. processSinglePDFWithRetry c f w = (False, w')
            \<and> sords w' = sords w \<and> clock w' = clock w \<and> nextId w' = nextId w
            \<and> filter retryEvent (since w w') = backoffTrace (RETRY_ATTEMPTS c) 0
            \<and> (\<exists>tgt ok. last (trace w') = Rename f (ERROR_DIR c, tgt) ok
                  \<and> (ok \<longleftrightarrow> fexists (fs w) f \<and> dirExists w (ERROR_DIR c)
                             \<and> \<not> renameDenied w f (ERROR_DIR c, tgt)
                             \<and> (fexists (fs w) (ERROR_DIR c, tgt) \<longrightarrow> renameReplaces w))
                  \<and> (\<not> fexists (fs w) (ERROR_DIR c, getName f) \<longrightarrow> tgt = getName f)
                  \<and> (ok \<longrightarrow> map_of (fs w') (ERROR_DIR c, tgt) = map_of (fs w) f
                          \<and> ((ERROR_DIR c, tgt) \<noteq> f \<longrightarrow> map_of (fs w') f = None))
                  \<and> (\<not> ok \<longrightarrow> fs w' = fs w))"
proof -
  from retry_invalid [OF assms, of 0] obtain w' where
    r: "retryLoop c f 0 w = (False, w')" and
    a: "sords w' = sords w" "clock w' = clock w" "nextId w' = nextId w"
    by blast
  from retry_failed [OF r] obtain wl where
    v: "filter retryEvent (since w w') = backoffTrace (RETRY_ATTEMPTS c) 0" and
    wl: "w' = moveFile f (ERROR_DIR c) wl" "sameFiles w wl"
    unfolding moveFileToErrorDir_def by blast
  show ?thesis
    using r a v moveFile_outcome [OF wl(2) wl(1)]
    by (intro exI [of _ w']) (simp add: processSinglePDFWithRetry_def)
qed

text \<open>
  Claim C10, as stated, fails at its first example: a file that was deleted between
  the scan and the attempt cannot be moved. Every attempt fails at the validation, and
  after the last one the rename into the error directory, which exists, returns false:
  no file is in the error directory afterwards.
\<close>

theorem C10_counterexample:
  "\<not> fexists (fs deletedWorld) (''in'', ''a.pdf'')
   \<and> dirExists deletedWorld (ERROR_DIR defaultConfig)
   \<and> \<not> validatePDFFile defaultConfig (fs deletedWorld) (''in'', ''a.pdf'')
   \<and> fst (processSinglePDFWithRetry defaultConfig (''in'', ''a.pdf'') deletedWorld) = False
   \<and> last (trace (snd (processSinglePDFWithRetry defaultConfig (''in'', ''a.pdf'') deletedWorld)))
       = Rename (''in'', ''a.pdf'') (ERROR_DIR defaultConfig, ''a.pdf'') False
   \<and> fs (snd (processSinglePDFWithRetry defaultConfig (''in'', ''a.pdf'') deletedWorld)) = []"
proof -
  let ?f = "(''in'', ''a.pdf'')"
  have gone: "\<not> fexists (fs deletedWorld) ?f"
    and free: "\<not> fexists (fs deletedWorld) (ERROR_DIR defaultConfig, getName ?f)"
    and dir: "dirExists deletedWorld (ERROR_DIR defaultConfig)"
    and emp: "fs deletedWorld = []"
    by (simp_all add: deletedWorld_def world0_def fexists_def dirExists_def defaultConfig_def)
  have inv: "\<not> validatePDFFile defaultConfig (fs deletedWorld) ?f"
    by (simp add: validatePDFFile_def emp)
  from run_invalid [OF inv] obtain w' tgt ok where
    p: "processSinglePDFWithRetry defaultConfig ?f deletedWorld = (False, w')" and
    l: "last (trace w') = Rename ?f (ERROR_DIR defaultConfig, tgt) ok" and
    ok: "ok \<longleftrightarrow> fexists (fs deletedWorld) ?f \<and> dirExists deletedWorld (ERROR_DIR defaultConfig)
                 \<and> \<not> renameDenied deletedWorld ?f (ERROR_DIR defaultConfig, tgt)
                 \<and> (fexists (fs deletedWorld) (ERROR_DIR defaultConfig, tgt)
                        \<longrightarrow> renameReplaces deletedWorld)" and
    t: "\<not> fexists (fs deletedWorld) (ERROR_DIR defaultConfig, getName ?f) \<longrightarrow> tgt = getName ?f" and
    stay: "\<not> ok \<longrightarrow> fs w' = fs deletedWorld"
    by blast
  from ok gone have "\<not> ok" by simp
  moreover from t free have "tgt = ''a.pdf''" by (simp add: getName_def)
  ultimately show ?thesis
    using gone dir inv p l stay emp by simp
qed

text \<open>
  Claim C10, amended: a file that fails the validation when it is processed fails the
  import before any archive call, and so every attempt: processSinglePDFWithRetry
  returns false, the archive has the records and the next identity it had and no
  remote call was made, all \<open>R\<close> attempts failed with their backoff, and the last event
  is the rename of the file into the error directory, under its own name when the
  error directory has no file of that name. The rename succeeds exactly when the file
  still exists (as an emptied or unreadable file does, and a deleted one does not), the
  error directory exists, the platform does not refuse the rename, and the target is
  free or the platform replaces it. Then the file is in the error directory and no more
  in the source directory; otherwise every file is where it was.
\<close>

theorem C10_validation_in_every_attempt:
  assumes "\<not> validatePDFFile c (fs w) f"
  shows "importFileToELOWithValidation c f w = (Inl (JsError ''File validation failed''), w)
       \<and> (\<exists>w'. processSinglePDFWithRetry c f w = (False, w')
            \<and> sords w' = sords w \<and> clock w' = clock w \<and> nextId w' = nextId w
            \<and> filter retryEvent (since w w') = backoffTrace (RETRY_ATTEMPTS c) 0
            \<and> (\<exists>tgt ok. last (trace w') = Rename f (ERROR_DIR c, tgt) ok
                  \<and> (ok \<longleftrightarrow> fexists (fs w) f \<and> dirExists w (ERROR_DIR c)
                             \<and> \<not> renameDenied w f (ERROR_DIR c, tgt)
                             \<and> (fexists (fs w) (ERROR_DIR c, tgt) \<longrightarrow> renameReplaces w))
                  \<and> (\<not> fexists (fs w) (ERROR_DIR c, getName f) \<longrightarrow> tgt = getName f)
                  \<and> (ok \<longrightarrow> map_of (fs w') (ERROR_DIR c, tgt) = map_of (fs w) f
                          \<and> ((ERROR_DIR c, tgt) \<noteq> f \<longrightarrow> map_of (fs w') f = None))
                  \<and> (\<not> ok \<longrightarrow> fs w' = fs w)))"
proof -
  have "importFileToELOWithValidation c f w = (Inl (JsError ''File validation failed''), w)"
    using assms by (simp add: importFileToELOWithValidation_def)
  then show ?thesis using run_invalid [OF assms] by simp
qed

section \<open>Workflow failures\<close>

lemma archive_not_wf: "archiveEvent e \<Longrightarrow> e \<noteq> Log (WorkflowStartFailed sid)"
  by (cases e rule: archiveEvent.cases) auto













section \<open>The cycle and the summary\<close>

lemma statisticsOf_none: "list_all (\<lambda>e. \<not> isStatistics e) es \<Longrightarrow> statisticsOf es = []"
  by (induction es rule: statisticsOf.induct) (auto split: event.splits logline.splits)

lemma statisticsOf_append [simp]: "statisticsOf (xs @ ys) = statisticsOf xs @ statisticsOf ys"
  by (induction xs) (auto split: event.splits logline.splits)

lemma processAll_effects:
  "totalProcessed (processAll c files w) + totalErrors (processAll c files w)
     = totalProcessed w + totalErrors w + length files
   \<and> extendsBy (\<lambda>e. \<not> isStatistics e) w (processAll c files w)"
proof (induction files arbitrary: w)
  case Nil
  then show ?case by (simp add: extendsBy_refl)
next
  case (Cons pdf files)
  obtain r w1 where p: "processSinglePDFWithRetry c pdf w = (r, w1)" by fastforce
  then have "retryLoop c pdf 0 w = (r, w1)" by (simp add: processSinglePDFWithRetry_def)
  from retry_effects [OF this] have
    e: "totalProcessed w1 = totalProcessed w" "totalErrors w1 = totalErrors w"
      "extendsBy (\<lambda>e. \<not> isStatistics e) w w1" by simp_all
  show ?case
  proof (cases r)
    case True
    let ?w2 = "w1\<lparr>totalProcessed := Suc (totalProcessed w1)\<rparr>"
    have "extendsBy (\<lambda>e. \<not> isStatistics e) w ?w2"
      using e(3) by (simp add: extendsBy_def since_def)
    with Cons.IH [of ?w2] show ?thesis
      using p True e(1,2) by (auto intro: extendsBy_trans)
  next
    case False
    let ?w2 = "w1\<lparr>totalErrors := Suc (totalErrors w1)\<rparr>"
    have "extendsBy (\<lambda>e. \<not> isStatistics e) w ?w2"
      using e(3) by (simp add: extendsBy_def since_def)
    with Cons.IH [of ?w2] show ?thesis
      using p False e(1,2) by (auto intro: extendsBy_trans)
  qed
qed

lemma ensureDirectories_frame [simp]:
  "trace (ensureDirectoriesExist c w) = trace w"
  "totalProcessed (ensureDirectoriesExist c w) = totalProcessed w"
  "totalErrors (ensureDirectoriesExist c w) = totalErrors w"
  by (simp_all add: ensureDirectoriesExist_def createDirectoryIfNotExists_def)

text \<open>
  Claim C9, amended: logStatistics itself has no guard, but the cycle emits the summary
  only after it has counted the outcome of at least one file and when the total is a
  multiple of ten. So a cycle emits no summary, or one summary with a total of at least
  ten, whose rate is a number and not \<open>NaN\<close>.
\<close>

theorem C9_summary_guard:
  "statisticsOf (since w (processPDFFiles c w)) = []
   \<or> (\<exists>p n. 10 \<le> p + n
        \<and> statisticsOf (since w (processPDFFiles c w)) = [(p, n, PercentOf p (p + n))])"
proof -
  obtain ok w1 where v: "validateELOConnection w = (ok, w1)" by fastforce
  then have t1: "trace w1 = trace w @ [Remote GetServerInfo ok]"
    and c1: "totalProcessed w1 = totalProcessed w" "totalErrors w1 = totalErrors w"
    by (auto simp: validateELOConnection_def remote_def)
  show ?thesis
  proof (cases ok)
    case False
    with v t1 have "since w (processPDFFiles c w) = [Remote GetServerInfo False]"
      by (intro since_append) (simp add: processPDFFiles_def Let_def)
    then show ?thesis by simp
  next
    case True
    let ?w2 = "ensureDirectoriesExist c w1"
    let ?files = "getValidPDFFiles c (SOURCE_DIR c) ?w2"
    let ?w3 = "processAll c ?files ?w2"
    show ?thesis
    proof (cases "length ?files = 0")
      case e: True
      with v True t1 have "since w (processPDFFiles c w) = [Remote GetServerInfo True]"
        by (intro since_append) (simp add: processPDFFiles_def Let_def)
      then show ?thesis by simp
    next
      case ne: False
      from processAll_effects [of c ?files ?w2] have
        tot: "totalProcessed ?w3 + totalErrors ?w3 = totalProcessed ?w2 + totalErrors ?w2 + length ?files"
        and ex: "extendsBy (\<lambda>e. \<not> isStatistics e) ?w2 ?w3" by simp_all
      have t3: "trace ?w3 = trace w @ (Remote GetServerInfo True # since ?w2 ?w3)"
        using extendsBy_trace [OF ex] t1 True by simp
      have none: "statisticsOf (since ?w2 ?w3) = []"
        using extendsBy_all [OF ex] by (rule statisticsOf_none)
      show ?thesis
      proof (cases "(totalProcessed ?w3 + totalErrors ?w3) mod 10 = 0")
        case False
        with v True ne have "processPDFFiles c w = ?w3"
          by (simp add: processPDFFiles_def Let_def)
        then have "since w (processPDFFiles c w) = Remote GetServerInfo True # since ?w2 ?w3"
          using t3 by (intro since_append) simp
        then show ?thesis using none by simp
      next
        case m: True
        let ?p = "totalProcessed ?w3" and ?n = "totalErrors ?w3"
        from ne tot have "0 < ?p + ?n" by simp
        with m have ge: "10 \<le> ?p + ?n" by presburger
        from v True ne m have "processPDFFiles c w = logStatistics ?w3"
          by (simp add: processPDFFiles_def Let_def)
        then have "trace (processPDFFiles c w)
            = trace w @ (Remote GetServerInfo True # since ?w2 ?w3
                @ [Log (Statistics ?p ?n (successRate ?p ?n))])"
          using t3 by (simp add: logStatistics_def)
        then have "since w (processPDFFiles c w)
            = Remote GetServerInfo True # since ?w2 ?w3 @ [Log (Statistics ?p ?n (successRate ?p ?n))]"
          by (rule since_append)
        moreover have "successRate ?p ?n = PercentOf ?p (?p + ?n)"
          using ge by (auto simp: successRate_def)
        ultimately have "statisticsOf (since w (processPDFFiles c w)) = [(?p, ?n, PercentOf ?p (?p + ?n))]"
          using none by simp
        with ge show ?thesis by blast
      qed
    qed
  qed
qed

text \<open>
  Claim C9, as stated, fails: logStatistics divides without a guard (line 521). With no
  file processed and no error counted the rate is \<open>0 / 0\<close>, which is \<open>NaN\<close>, and the
  summary reports it as it is, neither as \<open>0\<close> nor as not available.
\<close>

theorem C9_counterexample:
  "totalProcessed world0 + totalErrors world0 = 0
   \<and> successRate (totalProcessed world0) (totalErrors world0) = NaN
   \<and> since world0 (logStatistics world0) = [Log (Statistics 0 0 NaN)]"
  by (simp add: since_def logStatistics_def logEvent_def successRate_def world0_def)

section \<open>The theorems at concrete runs\<close>

lemma archive_down_run:
  "fst (importFileToELOWithValidation defaultConfig (''in'', ''a.pdf'')
          (logEvent (AttemptStarted (Suc 0)) archiveDownWorld))
     = Inl (RemoteFault FindFirstSords)
   \<and> since archiveDownWorld
        (snd (importFileToELOWithValidation defaultConfig (''in'', ''a.pdf'')
                (logEvent (AttemptStarted (Suc 0)) archiveDownWorld)))
     = [Log (AttemptStarted (Suc 0)), Remote FindFirstSords False]"
proof -
  have v: "validatePDFFile defaultConfig (fs (logEvent (AttemptStarted (Suc 0)) archiveDownWorld))
             (''in'', ''a.pdf'')"
    using valid_a by (simp add: archiveDownWorld_def world0_def logEvent_def)
  show ?thesis
    unfolding importFileToELOWithValidation_def using v
    by (simp add: getOrCreateArchiveFolder_def remote_def logEvent_def since_def
          archiveDownWorld_def world0_def)
qed

text \<open>The theorem of C8 at an archive that is unreachable at the first call.\<close>

theorem C8_connectivity_witness:
  "0 < RETRY_ATTEMPTS defaultConfig
   \<and> Remote FindFirstSords False
       \<in> set (since archiveDownWorld
                (snd (importFileToELOWithValidation defaultConfig (''in'', ''a.pdf'')
                        (logEvent (AttemptStarted (Suc 0)) archiveDownWorld))))
   \<and> FindFirstSords \<noteq> CheckoutDocMasks
   \<and> fst (importFileToELOWithValidation defaultConfig (''in'', ''a.pdf'')
             (logEvent (AttemptStarted (Suc 0)) archiveDownWorld))
       = Inl (RemoteFault FindFirstSords)
   \<and> retryLoop defaultConfig (''in'', ''a.pdf'') 0 archiveDownWorld
       = retryLoop defaultConfig (''in'', ''a.pdf'') (Suc 0)
           (onAttemptFailure defaultConfig (Suc 0)
              (snd (importFileToELOWithValidation defaultConfig (''in'', ''a.pdf'')
                      (logEvent (AttemptStarted (Suc 0)) archiveDownWorld))))"
proof -
  let ?i = "importFileToELOWithValidation defaultConfig (''in'', ''a.pdf'')
              (logEvent (AttemptStarted (Suc 0)) archiveDownWorld)"
  have a: "0 < RETRY_ATTEMPTS defaultConfig" by (simp add: defaultConfig_def)
  have r: "?i = (fst ?i, snd ?i)" by simp
  have m: "Remote FindFirstSords False \<in> set (since archiveDownWorld (snd ?i))"
    using archive_down_run by simp
  from C8_connectivity [OF a r m] archive_down_run a m show ?thesis by simp
qed

lemma emptied_invalid: "\<not> validatePDFFile defaultConfig (fs emptiedWorld) (''in'', ''a.pdf'')"
  by (simp add: validatePDFFile_def emptiedWorld_def world0_def pdfInfo_def)

lemma upt_1_3: "[1..<3] = [1, 2 :: nat]"
  by code_simp

text \<open>The theorem of C2 at a file that fails all three attempts of the default configuration.\<close>

theorem C2_backoff_witness:
  "0 < RETRY_ATTEMPTS defaultConfig
   \<and> importFileToELOWithValidation defaultConfig (''in'', ''a.pdf'')
        (logEvent (AttemptStarted (Suc 0)) emptiedWorld)
       = (Inl (JsError ''File validation failed''), logEvent (AttemptStarted (Suc 0)) emptiedWorld)
   \<and> since (logEvent (AttemptStarted (Suc 0)) emptiedWorld)
        (onAttemptFailure defaultConfig (Suc 0) (logEvent (AttemptStarted (Suc 0)) emptiedWorld))
       = [Log (AttemptFailed 1), Sleep 2000]
   \<and> fst (processSinglePDFWithRetry defaultConfig (''in'', ''a.pdf'') emptiedWorld) = False
   \<and> sleepsOf (since emptiedWorld
                 (snd (processSinglePDFWithRetry defaultConfig (''in'', ''a.pdf'') emptiedWorld)))
       = [2000, 4000]
   \<and> sum_list (sleepsOf (since emptiedWorld
                 (snd (processSinglePDFWithRetry defaultConfig (''in'', ''a.pdf'') emptiedWorld))))
       = 6000"
proof -
  let ?f = "(''in'', ''a.pdf'')"
  let ?w0 = "logEvent (AttemptStarted (Suc 0)) emptiedWorld"
  let ?p = "processSinglePDFWithRetry defaultConfig ?f emptiedWorld"
  have R: "RETRY_ATTEMPTS defaultConfig = 3" by (simp add: defaultConfig_def)
  have i: "importFileToELOWithValidation defaultConfig ?f ?w0
             = (Inl (JsError ''File validation failed''), ?w0)"
    using emptied_invalid by (simp add: importFileToELOWithValidation_def)
  from retry_invalid [OF emptied_invalid, of 0] have f: "fst ?p = False"
    by (auto simp: processSinglePDFWithRetry_def)
  then have p: "?p = (False, snd ?p)" by (simp add: prod_eq_iff)
  note inst = C2_backoff [of 0 defaultConfig ?f emptiedWorld
      "Inl (JsError ''File validation failed'')" ?w0 "snd ?p"]
  from inst i R have s1: "since ?w0 (onAttemptFailure defaultConfig (Suc 0) ?w0)
       = [Log (AttemptFailed 1), Sleep 2000]"
    by simp
  from inst p have s2: "sleepsOf (since emptiedWorld (snd ?p))
      = map (\<lambda>k. 2 ^ k * 1000) [1..<RETRY_ATTEMPTS defaultConfig]"
    by blast
  have s3: "sleepsOf (since emptiedWorld (snd ?p)) = [2000, 4000]"
    unfolding s2 R upt_1_3 by simp
  show ?thesis using R i s1 f s3 by simp
qed

text \<open>The theorem of C10 at a file that was emptied after the scan.\<close>

theorem C10_validation_in_every_attempt_witness:
  "\<not> validatePDFFile defaultConfig (fs emptiedWorld) (''in'', ''a.pdf'')
   \<and> fst (processSinglePDFWithRetry defaultConfig (''in'', ''a.pdf'') emptiedWorld) = False
   \<and> sords (snd (processSinglePDFWithRetry defaultConfig (''in'', ''a.pdf'') emptiedWorld)) = []
   \<and> clock (snd (processSinglePDFWithRetry defaultConfig (''in'', ''a.pdf'') emptiedWorld)) = 0
   \<and> last (trace (snd (processSinglePDFWithRetry defaultConfig (''in'', ''a.pdf'') emptiedWorld)))
       = Rename (''in'', ''a.pdf'') (ERROR_DIR defaultConfig, ''a.pdf'') True
   \<and> map_of (fs (snd (processSinglePDFWithRetry defaultConfig (''in'', ''a.pdf'') emptiedWorld)))
        (ERROR_DIR defaultConfig, ''a.pdf'') = Some (pdfInfo [])
   \<and> map_of (fs (snd (processSinglePDFWithRetry defaultConfig (''in'', ''a.pdf'') emptiedWorld)))
        (''in'', ''a.pdf'') = None"
proof -
  let ?f = "(''in'', ''a.pdf'')"
  let ?E = "ERROR_DIR defaultConfig"
  from C10_validation_in_every_attempt [OF emptied_invalid] obtain w' tgt ok where
    p: "processSinglePDFWithRetry defaultConfig ?f emptiedWorld = (False, w')" and
    a: "sords w' = sords emptiedWorld" "clock w' = clock emptiedWorld" and
    l: "last (trace w') = Rename ?f (?E, tgt) ok" and
    ok: "ok \<longleftrightarrow> fexists (fs emptiedWorld) ?f \<and> dirExists emptiedWorld ?E
                 \<and> \<not> renameDenied emptiedWorld ?f (?E, tgt)
                 \<and> (fexists (fs emptiedWorld) (?E, tgt) \<longrightarrow> renameReplaces emptiedWorld)" and
    t: "\<not> fexists (fs emptiedWorld) (?E, getName ?f) \<longrightarrow> tgt = getName ?f" and
    m: "ok \<longrightarrow> map_of (fs w') (?E, tgt) = map_of (fs emptiedWorld) ?f
             \<and> ((?E, tgt) \<noteq> ?f \<longrightarrow> map_of (fs w') ?f = None)"
    by blast
  have h: "fexists (fs emptiedWorld) ?f" "\<not> fexists (fs emptiedWorld) (?E, getName ?f)"
    "dirExists emptiedWorld ?E" "\<And>dst. \<not> renameDenied emptiedWorld ?f dst"
    "renameReplaces emptiedWorld" "(?E, ''a.pdf'') \<noteq> ?f"
    "map_of (fs emptiedWorld) ?f = Some (pdfInfo [])"
    "sords emptiedWorld = []" "clock emptiedWorld = 0"
    by (simp_all add: emptiedWorld_def world0_def fexists_def dirExists_def defaultConfig_def
          getName_def)
  from t h(2) have tgt: "tgt = ''a.pdf''" by (simp add: getName_def)
  from ok h(1,3,4,5) have "ok" by simp
  with m tgt h(6,7) have "map_of (fs w') (?E, ''a.pdf'') = Some (pdfInfo [])"
    and "map_of (fs w') ?f = None" by simp_all
  then show ?thesis
    using emptied_invalid p a l tgt \<open>ok\<close> h(8,9) by simp
qed





lemma tenth_valid:
  "validatePDFFile defaultConfig [((''C:/temp/pdf_import'', ''a.pdf''), pdfInfo ''%PDF-1.4'')]
     (''C:/temp/pdf_import'', ''a.pdf'')"
  by (simp add: validatePDFFile_def defaultConfig_def pdfInfo_def readHeader_def strEval
        toLowerCase_a toLowerCase_ext)

lemma tenth_dirs:
  "ensureDirectoriesExist defaultConfig (snd (validateELOConnection tenthWorld))
     = tenthScanned"
  by (simp add: ensureDirectoriesExist_def createDirectoryIfNotExists_def validateELOConnection_def
        remote_def tenthScanned_def tenthWorld_def world0_def defaultConfig_def dirExists_def)

lemma tenth_files:
  "getValidPDFFiles defaultConfig (SOURCE_DIR defaultConfig)
     tenthScanned
   = [(''C:/temp/pdf_import'', ''a.pdf'')]"
proof -
  have s: "SOURCE_DIR defaultConfig = ''C:/temp/pdf_import''" by (simp add: defaultConfig_def)
  show ?thesis
    unfolding getValidPDFFiles_def s
    using tenth_valid
    by (simp add: tenthScanned_def tenthWorld_def world0_def listFiles_def isRegularFile_def
          dirExists_def)
       (simp add: pdfInfo_def)
qed

lemma tenth_import:
  "fst (importFileToELOWithValidation defaultConfig (''C:/temp/pdf_import'', ''a.pdf'')
          (logEvent (AttemptStarted (Suc 0))
             tenthScanned)) = Inr 3"
proof -
  have v: "validatePDFFile defaultConfig
             (fs (logEvent (AttemptStarted (Suc 0))
                tenthScanned))
             (''C:/temp/pdf_import'', ''a.pdf'')"
    using tenth_valid by (simp add: tenthScanned_def tenthWorld_def world0_def logEvent_def)
  show ?thesis
    unfolding importFileToELOWithValidation_def using v
    by (simp add: getOrCreateArchiveFolder_def remote_def getMaskId_def uploadPDFFile_def
          readFileInChunks_def storeSord_def attachDocument_def logEvent_def
          tenthScanned_def tenthWorld_def world0_def pdfInfo_def)
qed

text \<open>The theorem of C9 at the tenth outcome of the process.\<close>

theorem C9_summary_guard_witness:
  "statisticsOf (since tenthWorld (processPDFFiles defaultConfig tenthWorld))
     = [(10, 0, PercentOf 10 10)]"
proof -
  let ?f = "(''C:/temp/pdf_import'', ''a.pdf'')"
  let ?u = "tenthScanned"
  have c: "validateELOConnection tenthWorld = (True, snd (validateELOConnection tenthWorld))"
    by (simp add: validateELOConnection_def remote_def tenthWorld_def world0_def)
  have R: "0 < RETRY_ATTEMPTS defaultConfig" by (simp add: defaultConfig_def)
  obtain r v where p: "processSinglePDFWithRetry defaultConfig ?f ?u = (r, v)" by fastforce
  then have l: "retryLoop defaultConfig ?f 0 ?u = (r, v)"
    by (simp add: processSinglePDFWithRetry_def)
  from l have r: "r"
  proof (cases rule: retry_cases)
    case exhausted
    with R show ?thesis by simp
  next
    case (success sid v1 wf v2)
    then show ?thesis by simp
  next
    case (retry res v1)
    with tenth_import show ?thesis by auto
  qed
  from retry_effects [OF l] have
    tp: "totalProcessed v = 9" and te: "totalErrors v = 0"
    and ex: "extendsBy (\<lambda>e. \<not> isStatistics e) ?u v"
    by (simp_all add: tenthScanned_def tenthWorld_def world0_def)
  have run: "processPDFFiles defaultConfig tenthWorld
      = logStatistics (v\<lparr>totalProcessed := Suc (totalProcessed v)\<rparr>)"
    unfolding processPDFFiles_def Let_def
    by (subst c) (simp add: tenth_dirs tenth_files p r tp te)
  have "trace (processPDFFiles defaultConfig tenthWorld)
      = trace tenthWorld @ (Remote GetServerInfo True # since ?u v
          @ [Log (Statistics 10 0 (successRate 10 0))])"
    unfolding run using extendsBy_trace [OF ex]
    by (simp add: logStatistics_def tp te tenthScanned_def tenthWorld_def world0_def)
  then have "since tenthWorld (processPDFFiles defaultConfig tenthWorld)
      = Remote GetServerInfo True # since ?u v @ [Log (Statistics 10 0 (successRate 10 0))]"
    by (rule since_append)
  then have st: "statisticsOf (since tenthWorld (processPDFFiles defaultConfig tenthWorld))
      = [(10, 0, successRate 10 0)]"
    using statisticsOf_none [OF extendsBy_all [OF ex]] by simp
  from C9_summary_guard [of tenthWorld defaultConfig] st show ?thesis by auto
qed

end
